theory Spec2Isabelle
  imports Complex_Main
begin

section \<open>Host values\<close>

text \<open>
  The scripts of \<^verbatim>\<open>assets/js/main.js\<close> run on the browser's numbers, strings, timers and
  animation frames. A number of the host is a double. The doubles, with the two zeros
  taken as one number and all the \<^verbatim>\<open>NaN\<close>s as one, are a type \<open>'d\<close> of their own here, and the
  host's arithmetic on them is a parameter of every definition that computes: each
  operation returns the double the host returns, rounded as the host rounds, infinite or
  \<^verbatim>\<open>NaN\<close> where the host's is.

  A dataset attribute is read through \<^verbatim>\<open>parseFloat\<close> or \<^verbatim>\<open>parseInt\<close>; the model starts from
  the result of that call: \<^verbatim>\<open>NaN\<close>, or \<open>Num x\<close> for a number \<open>x\<close> other than \<^verbatim>\<open>NaN\<close>. For the
  count of decimals the number is an integer; an infinite result of \<^verbatim>\<open>parseInt\<close> acts there
  as any integer beyond 100 or below 0 does.
\<close>

datatype 'a parsed = NaN | Num 'a

datatype js_error = RangeError | TypeError

text \<open>What a double stands for: a rational, an infinity, or nothing.\<close>

datatype numeric = NotANumber | MinusInfinity | Finite rat | PlusInfinity

text \<open>The comparisons \<^verbatim>\<open><\<close> and \<^verbatim>\<open><=\<close> of the host: false whenever an operand is \<^verbatim>\<open>NaN\<close>.\<close>

fun below :: "numeric \<Rightarrow> numeric \<Rightarrow> bool" where
  "below (Finite a) (Finite b) = (a < b)"
| "below (Finite a) PlusInfinity = True"
| "below MinusInfinity (Finite b) = True"
| "below MinusInfinity PlusInfinity = True"
| "below x y = False"

fun at_most :: "numeric \<Rightarrow> numeric \<Rightarrow> bool" where
  "at_most (Finite a) (Finite b) = (a \<le> b)"
| "at_most (Finite a) PlusInfinity = True"
| "at_most MinusInfinity (Finite b) = True"
| "at_most MinusInfinity PlusInfinity = True"
| "at_most MinusInfinity MinusInfinity = True"
| "at_most PlusInfinity PlusInfinity = True"
| "at_most x y = False"

fun is_finite :: "numeric \<Rightarrow> bool" where
  "is_finite (Finite a) = True"
| "is_finite x = False"

text \<open>The rational of a finite number.\<close>

fun rational :: "numeric \<Rightarrow> rat" where
  "rational (Finite a) = a"
| "rational x = 0"

text \<open>
  The host: what a double stands for; the double of an integer literal of the source;
  \<^verbatim>\<open>+\<close>, \<^verbatim>\<open>-\<close>, \<^verbatim>\<open>*\<close>, \<^verbatim>\<open>/\<close> and \<^verbatim>\<open>Math.pow\<close> on doubles; and the text the host writes, in
  exponent notation, for a value of \<open>10^21\<close> or more.
\<close>

record 'd host =
  val :: "'d \<Rightarrow> numeric"
  lit :: "int \<Rightarrow> 'd"
  fadd :: "'d \<Rightarrow> 'd \<Rightarrow> 'd"
  fsub :: "'d \<Rightarrow> 'd \<Rightarrow> 'd"
  fmul :: "'d \<Rightarrow> 'd \<Rightarrow> 'd"
  fdiv :: "'d \<Rightarrow> 'd \<Rightarrow> 'd"
  fpow :: "'d \<Rightarrow> nat \<Rightarrow> 'd"
  exponent_text :: "rat \<Rightarrow> string"

text \<open>\<^verbatim>\<open>x < y\<close> on doubles.\<close>

definition lt :: "'d host \<Rightarrow> 'd \<Rightarrow> 'd \<Rightarrow> bool" where
  "lt h x y = below (val h x) (val h y)"

text \<open>\<^verbatim>\<open>Math.min(x, y)\<close> and \<^verbatim>\<open>Math.max(x, y)\<close>: \<^verbatim>\<open>NaN\<close> if an argument is.\<close>

definition Math_min :: "'d host \<Rightarrow> 'd \<Rightarrow> 'd \<Rightarrow> 'd" where
  "Math_min h x y =
     (if val h x = NotANumber then x else if val h y = NotANumber then y
      else if lt h x y then x else y)"

definition Math_max :: "'d host \<Rightarrow> 'd \<Rightarrow> 'd \<Rightarrow> 'd" where
  "Math_max h x y =
     (if val h x = NotANumber then x else if val h y = NotANumber then y
      else if lt h y x then x else y)"

text \<open>
  What every host's doubles satisfy, whatever the rounding: the literals 0, 1 and 2000 are
  exact; \<open>x - 0\<close>, \<open>0 + x\<close> and \<open>x * 1\<close> are \<open>x\<close>; \<open>x - x\<close> and \<open>x * 0\<close> are 0 for a finite \<open>x\<close>;
  \<open>0 / d\<close> is 0 unless \<open>d\<close> is 0 or \<^verbatim>\<open>NaN\<close>; and \<^verbatim>\<open>Math.pow(0, 4)\<close> is 0.
\<close>

definition ieee_identities :: "'d host \<Rightarrow> bool" where
  "ieee_identities h \<longleftrightarrow>
     val h (lit h 0) = Finite 0 \<and> val h (lit h 1) = Finite 1
     \<and> val h (lit h 2000) = Finite 2000
     \<and> (\<forall>x. fsub h x (lit h 0) = x)
     \<and> (\<forall>x. is_finite (val h x) \<longrightarrow> fsub h x x = lit h 0)
     \<and> (\<forall>x. fadd h (lit h 0) x = x)
     \<and> (\<forall>x. fmul h x (lit h 1) = x)
     \<and> (\<forall>x. is_finite (val h x) \<longrightarrow> fmul h x (lit h 0) = lit h 0)
     \<and> (\<forall>d. val h d \<noteq> Finite 0 \<and> val h d \<noteq> NotANumber \<longrightarrow> fdiv h (lit h 0) d = lit h 0)
     \<and> fpow h (lit h 0) 4 = lit h 0"

text \<open>
  What correct rounding keeps of the order: with a finite \<open>z\<close>, \<open>x - z\<close> grows with \<open>x\<close> and
  \<open>z - x\<close> falls as \<open>x\<close> grows; division by a finite positive number and multiplication by
  one grow with the other operand; and a quotient by a finite positive number reaches 1
  exactly when the dividend reaches the divisor.
\<close>

definition ieee_order :: "'d host \<Rightarrow> bool" where
  "ieee_order h \<longleftrightarrow>
     (\<forall>x y z. is_finite (val h z) \<longrightarrow> at_most (val h x) (val h y) \<longrightarrow>
        at_most (val h (fsub h x z)) (val h (fsub h y z)))
     \<and> (\<forall>x y z. is_finite (val h z) \<longrightarrow> at_most (val h x) (val h y) \<longrightarrow>
        at_most (val h (fsub h z y)) (val h (fsub h z x)))
     \<and> (\<forall>x y d. is_finite (val h d) \<longrightarrow> below (Finite 0) (val h d) \<longrightarrow>
        at_most (val h x) (val h y) \<longrightarrow> at_most (val h (fdiv h x d)) (val h (fdiv h y d)))
     \<and> (\<forall>x y a. is_finite (val h a) \<longrightarrow> below (Finite 0) (val h a) \<longrightarrow>
        at_most (val h x) (val h y) \<longrightarrow> at_most (val h (fmul h a x)) (val h (fmul h a y)))
     \<and> (\<forall>e d. is_finite (val h d) \<longrightarrow> below (Finite 0) (val h d) \<longrightarrow>
        at_most (Finite 1) (val h (fdiv h e d)) = at_most (val h d) (val h e))"

text \<open>
  \<^verbatim>\<open>Math.pow(x, 4)\<close> is left to the implementation, up to the cases the language fixes. That
  it is 1 at 1, and that it grows with a non-negative \<open>x\<close>, are properties of the host at
  hand (a correctly rounded power has both).
\<close>

definition pow_unit :: "'d host \<Rightarrow> bool" where
  "pow_unit h \<longleftrightarrow> fpow h (lit h 1) 4 = lit h 1"

definition pow_monotone :: "'d host \<Rightarrow> bool" where
  "pow_monotone h \<longleftrightarrow>
     (\<forall>x y. at_most (Finite 0) (val h x) \<longrightarrow> at_most (val h x) (val h y) \<longrightarrow>
        at_most (val h (fpow h x 4)) (val h (fpow h y 4)))"

text \<open>
  The host whose arithmetic never rounds: the rationals. A host's doubles compute what it
  computes wherever their own results are exact.
\<close>

definition exact :: "rat host" where
  "exact = \<lparr>val = Finite, lit = of_int, fadd = (+), fsub = (-), fmul = (*), fdiv = (/),
     fpow = (^), exponent_text = (\<lambda>x. ''e+'')\<rparr>"

text \<open>\<^verbatim>\<open>parseInt(s) || d\<close> for an integer count: \<^verbatim>\<open>NaN\<close> and \<^verbatim>\<open>0\<close> are falsy.\<close>

fun or_default :: "int parsed \<Rightarrow> int \<Rightarrow> int" where
  "or_default NaN d = d"
| "or_default (Num n) d = (if n = 0 then d else n)"

text \<open>\<^verbatim>\<open>parseInt(s) || d\<close> for a number used in arithmetic.\<close>

fun or_literal :: "'d host \<Rightarrow> 'd parsed \<Rightarrow> int \<Rightarrow> 'd" where
  "or_literal h NaN d = lit h d"
| "or_literal h (Num x) d = (if val h x = Finite 0 then lit h d else x)"

text \<open>\<^verbatim>\<open>s || ''\<close>: an absent attribute is \<^verbatim>\<open>undefined\<close>.\<close>

fun or_empty :: "string option \<Rightarrow> string" where
  "or_empty None = []"
| "or_empty (Some s) = s"

subsection \<open>Numbers to text\<close>

definition digit :: "nat \<Rightarrow> char" where
  "digit n = ''0123456789'' ! (n mod 10)"

fun show_nat :: "nat \<Rightarrow> string" where
  "show_nat n = (if n < 10 then [digit n] else show_nat (n div 10) @ [digit n])"

declare show_nat.simps [simp del]

text \<open>The decimal digits of an integer, with its sign.\<close>

definition show_int :: "int \<Rightarrow> string" where
  "show_int i = (if i < 0 then CHR ''-'' # show_nat (nat (- i)) else show_nat (nat i))"

text \<open>
  The text of an integer-valued number inside a template string, as for
  \<^verbatim>\<open>Math.floor(x)\<close>: the sign, then all the digits below \<open>10^21\<close> (written out in the
  definition) and the host's exponent notation from there on.
\<close>

definition int_text :: "'d host \<Rightarrow> int \<Rightarrow> string" where
  "int_text h i =
     (if \<bar>i\<bar> < 1000000000000000000000 then show_int i
      else (if i < 0 then ''-'' else '''') @ exponent_text h (of_int \<bar>i\<bar>))"

text \<open>
  The digits of \<^verbatim>\<open>x.toFixed(f)\<close> below \<open>10^21\<close>: the sign, then the integer \<open>n\<close> nearest to
  \<open>|x| * 10^f\<close> (the larger one on a tie), padded with zeros to \<open>f + 1\<close> digits and split
  before the last \<open>f\<close> digits.
\<close>

definition fixed_digits :: "rat \<Rightarrow> nat \<Rightarrow> string" where
  "fixed_digits x f =
     (let s = (if x < 0 then ''-'' else '''');
          n = nat \<lfloor>\<bar>x\<bar> * 10 ^ f + 1 / 2\<rfloor>;
          m = show_nat n;
          k = length m;
          m' = (if k \<le> f then replicate (f + 1 - k) CHR ''0'' @ m else m);
          k' = length m'
      in s @ (if f = 0 then m' else take (k' - f) m' @ ''.'' @ drop (k' - f) m'))"

text \<open>
  The text of \<^verbatim>\<open>x.toFixed(f)\<close> for \<open>0 \<le> f \<le> 100\<close>: from \<open>10^21\<close> on it is the sign and the
  host's exponent notation.
\<close>

definition fixed_text :: "'d host \<Rightarrow> rat \<Rightarrow> nat \<Rightarrow> string" where
  "fixed_text h x f =
     (if \<bar>x\<bar> < 1000000000000000000000 then fixed_digits x f
      else (if x < 0 then ''-'' else '''') @ exponent_text h \<bar>x\<bar>)"

text \<open>
  The text of a number: the digits of a finite one, and \<^verbatim>\<open>Infinity\<close>, \<^verbatim>\<open>-Infinity\<close> or
  \<^verbatim>\<open>NaN\<close>.
\<close>

definition number_text :: "numeric \<Rightarrow> (rat \<Rightarrow> string) \<Rightarrow> string" where
  "number_text v digits =
     (case v of
        Finite r \<Rightarrow> digits r
      | PlusInfinity \<Rightarrow> ''Infinity''
      | MinusInfinity \<Rightarrow> ''-Infinity''
      | NotANumber \<Rightarrow> ''NaN'')"

text \<open>\<^verbatim>\<open>Math.floor(x)\<close> inside a template string.\<close>

definition floor_text :: "'d host \<Rightarrow> 'd \<Rightarrow> string" where
  "floor_text h x = number_text (val h x) (\<lambda>r. int_text h \<lfloor>r\<rfloor>)"

text \<open>
  \<^verbatim>\<open>x.toFixed(f)\<close> throws a \<^verbatim>\<open>RangeError\<close> unless \<open>0 \<le> f \<le> 100\<close>, whatever \<open>x\<close> is; then a
  number that is not finite gives its name.
\<close>

definition toFixed :: "'d host \<Rightarrow> 'd \<Rightarrow> int \<Rightarrow> js_error + string" where
  "toFixed h x f =
     (if f < 0 \<or> 100 < f then Inl RangeError
      else Inr (number_text (val h x) (\<lambda>r. fixed_text h r (nat f))))"

section \<open>Stats counter\<close>

text \<open>
  A \<^verbatim>\<open>.stats-value[data-target]\<close> element: its dataset as parsed by the driver, its text
  and its class list.
\<close>

record 'd element =
  data_target :: "'d parsed"
  data_duration :: "'d parsed"
  data_decimals :: "int parsed"
  data_prefix :: "string option"
  data_suffix :: "string option"
  textContent :: string
  classList :: "string list"

definition classList_add :: "string \<Rightarrow> 'd element \<Rightarrow> 'd element" where
  "classList_add c el =
     (if c \<in> set (classList el) then el else el\<lparr>classList := classList el @ [c]\<rparr>)"

definition classList_remove :: "string \<Rightarrow> 'd element \<Rightarrow> 'd element" where
  "classList_remove c el = el\<lparr>classList := filter (\<lambda>d. d \<noteq> c) (classList el)\<rparr>"

text \<open>The variables a frame callback closes over.\<close>

record 'd counter =
  target :: 'd
  duration :: 'd
  decimals :: int
  prefix :: string
  suffix :: string
  startTime :: 'd

text \<open>
  What a callback leaves scheduled when it returns: another animation frame, a timeout
  (in ms), or nothing.
\<close>

datatype scheduled = RequestFrame | Timeout int | Nothing

subsection \<open>The instrumented variant: \<^verbatim>\<open>StatsCounter.animateCounter\<close>\<close>

text \<open>
  \<^verbatim>\<open>animateCounter(element)\<close> at clock reading \<open>now\<close> (\<^verbatim>\<open>performance.now()\<close>). The result is
  the element and the closure handed to \<^verbatim>\<open>requestAnimationFrame\<close>, if any; the
  \<^verbatim>\<open>isNaN(target)\<close> test is the \<open>NaN\<close> case.
\<close>

definition animateCounter :: "'d host \<Rightarrow> 'd \<Rightarrow> 'd element \<Rightarrow> 'd element \<times> 'd counter option" where
  "animateCounter h now el =
     (let tgt = data_target el;
          dur = or_literal h (data_duration el) 2000;
          dec = or_default (data_decimals el) 0;
          pre = or_empty (data_prefix el);
          suf = or_empty (data_suffix el)
      in case tgt of
           NaN \<Rightarrow> (el, None)
         | Num t \<Rightarrow>
             (classList_add ''counting'' el,
              Some \<lparr>target = t, duration = dur, decimals = dec, prefix = pre, suffix = suf,
                    startTime = now\<rparr>))"

text \<open>
  The progress of a frame: \<^verbatim>\<open>Math.min(elapsed / duration, 1)\<close>.
\<close>

definition progress :: "'d host \<Rightarrow> 'd counter \<Rightarrow> 'd \<Rightarrow> 'd" where
  "progress h c currentTime =
     (let elapsed = fsub h currentTime (startTime c)
      in Math_min h (fdiv h elapsed (duration c)) (lit h 1))"

text \<open>\<^verbatim>\<open>1 - Math.pow(1 - progress, 4)\<close>.\<close>

definition easeOutQuart :: "'d host \<Rightarrow> 'd \<Rightarrow> 'd" where
  "easeOutQuart h p = fsub h (lit h 1) (fpow h (fsub h (lit h 1) p) 4)"

text \<open>\<^verbatim>\<open>startValue + (target - startValue) * easeOutQuart\<close> with \<^verbatim>\<open>startValue = 0\<close>.\<close>

definition currentValue :: "'d host \<Rightarrow> 'd counter \<Rightarrow> 'd \<Rightarrow> 'd" where
  "currentValue h c currentTime =
     (let startValue = lit h 0
      in fadd h startValue
           (fmul h (fsub h (target c) startValue) (easeOutQuart h (progress h c currentTime))))"

text \<open>\<^verbatim>\<open>decimals > 0 ? currentValue.toFixed(decimals) : Math.floor(currentValue)\<close>.\<close>

definition formattedValue :: "'d host \<Rightarrow> int \<Rightarrow> 'd \<Rightarrow> js_error + string" where
  "formattedValue h dec v =
     (if dec > 0 then toFixed h v dec else Inr (floor_text h v))"

text \<open>
  \<^verbatim>\<open>updateCounter(currentTime)\<close>: writes the text, then asks for the next frame while
  \<^verbatim>\<open>progress < 1\<close>; otherwise it swaps the class \<^verbatim>\<open>counting\<close> for \<^verbatim>\<open>completed\<close> and sets the
  600 ms timeout that removes \<^verbatim>\<open>completed\<close>. A throwing \<^verbatim>\<open>toFixed\<close> leaves the callback
  before anything is written.
\<close>

definition updateCounter ::
  "'d host \<Rightarrow> 'd counter \<Rightarrow> 'd \<Rightarrow> 'd element \<Rightarrow> js_error + 'd element \<times> scheduled" where
  "updateCounter h c currentTime el =
     (case formattedValue h (decimals c) (currentValue h c currentTime) of
        Inl e \<Rightarrow> Inl e
      | Inr txt \<Rightarrow>
          let el' = el\<lparr>textContent := prefix c @ txt @ suffix c\<rparr>
          in if lt h (progress h c currentTime) (lit h 1) then Inr (el', RequestFrame)
             else Inr (classList_add ''completed'' (classList_remove ''counting'' el'),
                       Timeout 600))"

subsection \<open>The production variant: \<^verbatim>\<open>StatsCounter.animate\<close>\<close>

definition animate :: "'d host \<Rightarrow> 'd \<Rightarrow> 'd element \<Rightarrow> 'd element \<times> 'd counter option" where
  "animate h now el =
     (let tgt = data_target el;
          dur = or_literal h (data_duration el) 2000;
          dec = or_default (data_decimals el) 0;
          pre = or_empty (data_prefix el);
          suf = or_empty (data_suffix el)
      in case tgt of
           NaN \<Rightarrow> (el, None)
         | Num t \<Rightarrow>
             (el, Some \<lparr>target = t, duration = dur, decimals = dec, prefix = pre,
                        suffix = suf, startTime = now\<rparr>))"

text \<open>\<^verbatim>\<open>target * eased\<close>.\<close>

definition current :: "'d host \<Rightarrow> 'd counter \<Rightarrow> 'd \<Rightarrow> 'd" where
  "current h c now = fmul h (target c) (easeOutQuart h (progress h c now))"

text \<open>\<^verbatim>\<open>decimals ? current.toFixed(decimals) : Math.floor(current)\<close>: any non-zero
  \<^verbatim>\<open>decimals\<close> is truthy.\<close>

definition formatted :: "'d host \<Rightarrow> int \<Rightarrow> 'd \<Rightarrow> js_error + string" where
  "formatted h dec v =
     (if dec \<noteq> 0 then toFixed h v dec else Inr (floor_text h v))"

definition update ::
  "'d host \<Rightarrow> 'd counter \<Rightarrow> 'd \<Rightarrow> 'd element \<Rightarrow> js_error + 'd element \<times> scheduled" where
  "update h c now el =
     (case formatted h (decimals c) (current h c now) of
        Inl e \<Rightarrow> Inl e
      | Inr txt \<Rightarrow>
          let el' = el\<lparr>textContent := prefix c @ txt @ suffix c\<rparr>
          in if lt h (progress h c now) (lit h 1) then Inr (el', RequestFrame)
             else Inr (el', Nothing))"

subsection \<open>A run of frames\<close>

text \<open>
  The browser calls the pending frame callback with one timestamp per frame. A run takes
  the timestamps in order until the callback stops asking for frames; it yields the texts
  written, in order, and how the run stands after the last timestamp.
\<close>

datatype run_status = NotScheduled | Pending | Finished | Threw js_error

fun run_frames ::
  "('d \<Rightarrow> 'd element \<Rightarrow> js_error + 'd element \<times> scheduled) \<Rightarrow> 'd list \<Rightarrow> 'd element
     \<Rightarrow> string list \<times> run_status"
where
  "run_frames cb [] el = ([], Pending)"
| "run_frames cb (t # ts) el =
     (case cb t el of
        Inl e \<Rightarrow> ([], Threw e)
      | Inr (el', s) \<Rightarrow>
          if s = RequestFrame
          then (let (txts, st) = run_frames cb ts el' in (textContent el' # txts, st))
          else ([textContent el'], Finished))"

text \<open>A frame callback's result as seen on the page: the text written and what is scheduled.\<close>

definition written :: "js_error + 'd element \<times> scheduled \<Rightarrow> js_error + string \<times> scheduled" where
  "written r = (case r of Inl e \<Rightarrow> Inl e | Inr (el, s) \<Rightarrow> Inr (textContent el, s))"

text \<open>
  The whole driver, from the call at clock \<open>now\<close> through the frames at \<open>ts\<close>: the
  instrumented one (\<^verbatim>\<open>animateCounter\<close>) and the production one (\<^verbatim>\<open>animate\<close>).
\<close>

definition animateCounter_run ::
  "'d host \<Rightarrow> 'd \<Rightarrow> 'd element \<Rightarrow> 'd list \<Rightarrow> string list \<times> run_status" where
  "animateCounter_run h now el ts =
     (case animateCounter h now el of
        (el', None) \<Rightarrow> ([], NotScheduled)
      | (el', Some c) \<Rightarrow> run_frames (updateCounter h c) ts el')"

definition animate_run ::
  "'d host \<Rightarrow> 'd \<Rightarrow> 'd element \<Rightarrow> 'd list \<Rightarrow> string list \<times> run_status" where
  "animate_run h now el ts =
     (case animate h now el of
        (el', None) \<Rightarrow> ([], NotScheduled)
      | (el', Some c) \<Rightarrow> run_frames (update h c) ts el')"

subsection \<open>The specification's formulas\<close>

text \<open>
  The specification's easing, in the host's arithmetic:
  \<open>value(t) = start + (target - start) * (1 - (1 - t)^4)\<close> with
  \<open>t = clamp(elapsed / duration, 0, 1)\<close>.
\<close>

definition clamp :: "'d host \<Rightarrow> 'd \<Rightarrow> 'd \<Rightarrow> 'd \<Rightarrow> 'd" where
  "clamp h x lo hi = Math_max h lo (Math_min h x hi)"

definition spec_value :: "'d host \<Rightarrow> 'd \<Rightarrow> 'd \<Rightarrow> 'd \<Rightarrow> 'd" where
  "spec_value h start tgt t =
     fadd h start (fmul h (fsub h tgt start) (fsub h (lit h 1) (fpow h (fsub h (lit h 1) t) 4)))"


section \<open>Timers\<close>

text \<open>
  \<^verbatim>\<open>setTimeout(cb, delay)\<close> called at clock \<open>now\<close> (ms): the pending timers are kept in
  registration order, each with the time it falls due.
\<close>

definition setTimeout :: "'cb \<Rightarrow> int \<Rightarrow> int \<Rightarrow> (int \<times> 'cb) list \<Rightarrow> (int \<times> 'cb) list" where
  "setTimeout cb delay now ts = ts @ [(now + delay, cb)]"

section \<open>Stats counter: observer, latch and fallback\<close>

text \<open>An intersection entry: the element it is about (by identity) and its flag.\<close>

record entry =
  entry_target :: nat
  isIntersecting :: bool

text \<open>The fallback's timeout callback \<^verbatim>\<open>() => this.animateCounter(stat)\<close>.\<close>

datatype stats_cb = StartCounter nat

text \<open>
  The module's state: the latch set, the elements the observer watches, the pending
  timeouts, the elements themselves (by identity), the frame callbacks requested (element
  and closure: one for each animation run started) and, as a trace, the elements handed
  to the driver, oldest first.
\<close>

record 'd stats_module =
  animatedStats :: "nat set"
  stats_observed :: "nat list"
  stats_timers :: "(int \<times> stats_cb) list"
  stats_elements :: "nat \<Rightarrow> 'd element"
  stats_frames :: "(nat \<times> 'd counter) list"
  counter_runs :: "nat list"

text \<open>
  A call \<^verbatim>\<open>this.animateCounter(x)\<close> (or the production \<^verbatim>\<open>animate(x)\<close>) at clock \<open>now\<close>, on
  the module's element \<open>x\<close>.
\<close>

definition call_animateCounter ::
  "'d host \<Rightarrow> 'd \<Rightarrow> nat \<Rightarrow> 'd stats_module \<Rightarrow> 'd stats_module" where
  "call_animateCounter h now x m =
     (case animateCounter h now (stats_elements m x) of
        (el', c) \<Rightarrow>
          m\<lparr>stats_elements := (stats_elements m)(x := el'),
            stats_frames := stats_frames m @ (case c of None \<Rightarrow> [] | Some c' \<Rightarrow> [(x, c')]),
            counter_runs := counter_runs m @ [x]\<rparr>)"

definition call_animate ::
  "'d host \<Rightarrow> 'd \<Rightarrow> nat \<Rightarrow> 'd stats_module \<Rightarrow> 'd stats_module" where
  "call_animate h now x m =
     (case animate h now (stats_elements m x) of
        (el', c) \<Rightarrow>
          m\<lparr>stats_elements := (stats_elements m)(x := el'),
            stats_frames := stats_frames m @ (case c of None \<Rightarrow> [] | Some c' \<Rightarrow> [(x, c')]),
            counter_runs := counter_runs m @ [x]\<rparr>)"

text \<open>The instrumented observer callback, one entry and then \<^verbatim>\<open>entries.forEach\<close>.\<close>

definition stats_entry ::
  "'d host \<Rightarrow> 'd \<Rightarrow> entry \<Rightarrow> 'd stats_module \<Rightarrow> 'd stats_module" where
  "stats_entry h now e m =
     (if isIntersecting e \<and> entry_target e \<notin> animatedStats m
      then (call_animateCounter h now (entry_target e) m)
             \<lparr>animatedStats := insert (entry_target e) (animatedStats m)\<rparr>
      else m)"

definition stats_callback ::
  "'d host \<Rightarrow> 'd \<Rightarrow> entry list \<Rightarrow> 'd stats_module \<Rightarrow> 'd stats_module" where
  "stats_callback h now entries m = fold (stats_entry h now) entries m"

text \<open>The production observer callback also stops watching the element.\<close>

definition stats_entry_prod ::
  "'d host \<Rightarrow> 'd \<Rightarrow> entry \<Rightarrow> 'd stats_module \<Rightarrow> 'd stats_module" where
  "stats_entry_prod h now e m =
     (if isIntersecting e \<and> entry_target e \<notin> animatedStats m
      then (call_animate h now (entry_target e) m)
             \<lparr>animatedStats := insert (entry_target e) (animatedStats m),
              stats_observed := removeAll (entry_target e) (stats_observed m)\<rparr>
      else m)"

definition stats_callback_prod ::
  "'d host \<Rightarrow> 'd \<Rightarrow> entry list \<Rightarrow> 'd stats_module \<Rightarrow> 'd stats_module" where
  "stats_callback_prod h now entries m = fold (stats_entry_prod h now) entries m"

text \<open>
  \<^verbatim>\<open>StatsCounter.fallbackAnimation\<close> over the matched elements \<open>statsValues\<close>:
  \<^verbatim>\<open>setTimeout(() => this.animateCounter(stat), 500 + (index * 200))\<close>.
\<close>

definition stats_fallbackAnimation ::
  "int \<Rightarrow> nat list \<Rightarrow> 'd stats_module \<Rightarrow> 'd stats_module" where
  "stats_fallbackAnimation now statsValues m =
     fold (\<lambda>(index, stat) m.
             m\<lparr>stats_timers :=
                 setTimeout (StartCounter stat) (500 + (int index * 200)) now (stats_timers m)\<rparr>)
          (enumerate 0 statsValues) m"

text \<open>
  \<^verbatim>\<open>StatsCounter.setupObserver\<close>; \<open>hasIO\<close> is \<^verbatim>\<open>'IntersectionObserver' in window\<close>.
\<close>

definition setupObserver ::
  "bool \<Rightarrow> int \<Rightarrow> nat list \<Rightarrow> 'd stats_module \<Rightarrow> 'd stats_module" where
  "setupObserver hasIO now statsValues m =
     (if \<not> hasIO then stats_fallbackAnimation now statsValues m
      else m\<lparr>stats_observed := stats_observed m @ statsValues\<rparr>)"

text \<open>The production \<^verbatim>\<open>fallback\<close> and \<^verbatim>\<open>init\<close> of \<^verbatim>\<open>StatsCounter\<close>.\<close>

definition stats_fallback ::
  "int \<Rightarrow> nat list \<Rightarrow> 'd stats_module \<Rightarrow> 'd stats_module" where
  "stats_fallback now els m =
     fold (\<lambda>(i, el) m.
             m\<lparr>stats_timers := setTimeout (StartCounter el) (500 + int i * 200) now (stats_timers m)\<rparr>)
          (enumerate 0 els) m"

definition stats_init ::
  "bool \<Rightarrow> int \<Rightarrow> nat list \<Rightarrow> 'd stats_module \<Rightarrow> 'd stats_module" where
  "stats_init hasIO now els m =
     (if \<not> hasIO then stats_fallback now els m
      else m\<lparr>stats_observed := stats_observed m @ els\<rparr>)"

text \<open>The module before anything has run, over the elements \<open>els\<close>.\<close>

definition stats_module0 :: "(nat \<Rightarrow> 'd element) \<Rightarrow> 'd stats_module" where
  "stats_module0 els =
     \<lparr>animatedStats = {}, stats_observed = [], stats_timers = [], stats_elements = els,
      stats_frames = [], counter_runs = []\<rparr>"

section \<open>Animation module: entrance effects and the transaction sequence\<close>

text \<open>\<^verbatim>\<open>CONFIG.STAGGER_DELAY\<close>.\<close>

definition STAGGER_DELAY :: int where
  "STAGGER_DELAY = 100"

text \<open>
  What the selectors find: the elements of \<^verbatim>\<open>CONFIG.SELECTORS.animateElements\<close>, the
  \<^verbatim>\<open>.transaction-item\<close> elements, and \<^verbatim>\<open>.expense-sec-right\<close> if there is one.
\<close>

record page =
  animateElements :: "nat list"
  transactionItems :: "nat list"
  transactionSection :: "nat option"

text \<open>
  The timeout callbacks of the module, by name: the fallback's class toggle and its call
  of the transaction sequence; and the sequence's own steps (an item starts to play, the
  circles start, the list starts to scroll). The module's timeouts are recorded with the
  time they fall due; what the callbacks do when they fire is not part of this model.
\<close>

datatype anim_cb =
    AnimateIn nat
  | TransactionFallback
  | ItemAppear nat
  | AnimateCircles
  | ListScroll

text \<open>
  The module's state: the latch flag, the element the transaction observer watches, the
  pending timeouts, and (as a trace) the clock at each start of the transaction sequence.
\<close>

record anim_module =
  hasTransactionAnimated :: bool
  transaction_observed :: "nat list"
  anim_timers :: "(int \<times> anim_cb) list"
  transaction_runs :: "int list"

text \<open>
  \<^verbatim>\<open>animateTransactionSection\<close>: item \<open>index\<close> at \<open>index * 200\<close>, the circles at
  \<open>length * 200 + 500\<close>, the list at \<open>length * 200 + 2000\<close>.
\<close>

definition animateTransactionSection :: "int \<Rightarrow> page \<Rightarrow> anim_module \<Rightarrow> anim_module" where
  "animateTransactionSection now pg m =
     (let items = transactionItems pg;
          m1 = m\<lparr>transaction_runs := transaction_runs m @ [now]\<rparr>;
          m2 = fold (\<lambda>(index, item) m.
                       m\<lparr>anim_timers :=
                           setTimeout (ItemAppear item) (int index * 200) now (anim_timers m)\<rparr>)
                    (enumerate 0 items) m1;
          m3 = m2\<lparr>anim_timers :=
                    setTimeout AnimateCircles (int (length items) * 200 + 500) now (anim_timers m2)\<rparr>
      in m3\<lparr>anim_timers :=
               setTimeout ListScroll (int (length items) * 200 + 2000) now (anim_timers m3)\<rparr>)"

text \<open>The transaction observer's callback of the instrumented variant.\<close>

definition transaction_entry :: "int \<Rightarrow> page \<Rightarrow> entry \<Rightarrow> anim_module \<Rightarrow> anim_module" where
  "transaction_entry now pg e m =
     (if isIntersecting e \<and> \<not> hasTransactionAnimated m
      then (animateTransactionSection now pg m)\<lparr>hasTransactionAnimated := True\<rparr>
      else m)"

definition transaction_callback :: "int \<Rightarrow> page \<Rightarrow> entry list \<Rightarrow> anim_module \<Rightarrow> anim_module" where
  "transaction_callback now pg entries m = fold (transaction_entry now pg) entries m"

text \<open>\<^verbatim>\<open>AnimationModule.restartTransactionAnimation\<close>.\<close>

definition restartTransactionAnimation :: "int \<Rightarrow> page \<Rightarrow> anim_module \<Rightarrow> anim_module" where
  "restartTransactionAnimation now pg m =
     (let m' = m\<lparr>hasTransactionAnimated := False\<rparr>
      in case transactionSection pg of
           None \<Rightarrow> m'
         | Some section \<Rightarrow> animateTransactionSection now pg m')"

text \<open>
  \<^verbatim>\<open>AnimationModule.fallbackAnimation\<close>: element \<open>index\<close> gets its class at
  \<open>index * CONFIG.STAGGER_DELAY\<close>, the transaction sequence starts at 2000.
\<close>

definition anim_fallbackAnimation :: "int \<Rightarrow> page \<Rightarrow> anim_module \<Rightarrow> anim_module" where
  "anim_fallbackAnimation now pg m =
     (let m1 = fold (\<lambda>(index, element) m.
                       m\<lparr>anim_timers :=
                           setTimeout (AnimateIn element) (int index * STAGGER_DELAY) now
                             (anim_timers m)\<rparr>)
                    (enumerate 0 (animateElements pg)) m
      in m1\<lparr>anim_timers := setTimeout TransactionFallback 2000 now (anim_timers m1)\<rparr>)"

subsection \<open>The production variant: \<^verbatim>\<open>Animations\<close>\<close>

definition animateTransactions :: "int \<Rightarrow> page \<Rightarrow> anim_module \<Rightarrow> anim_module" where
  "animateTransactions now pg m =
     (let items = transactionItems pg;
          m1 = m\<lparr>transaction_runs := transaction_runs m @ [now]\<rparr>;
          m2 = fold (\<lambda>(i, item) m.
                       m\<lparr>anim_timers :=
                           setTimeout (ItemAppear item) (int i * 200) now (anim_timers m)\<rparr>)
                    (enumerate 0 items) m1;
          m3 = m2\<lparr>anim_timers :=
                    setTimeout AnimateCircles (int (length items) * 200 + 500) now (anim_timers m2)\<rparr>
      in m3\<lparr>anim_timers :=
               setTimeout ListScroll (int (length items) * 200 + 2000) now (anim_timers m3)\<rparr>)"

text \<open>The production transaction observer also stops watching the section.\<close>

definition transaction_entry_prod :: "int \<Rightarrow> page \<Rightarrow> entry \<Rightarrow> anim_module \<Rightarrow> anim_module" where
  "transaction_entry_prod now pg e m =
     (if isIntersecting e \<and> \<not> hasTransactionAnimated m
      then (animateTransactions now pg m)
             \<lparr>hasTransactionAnimated := True,
              transaction_observed := removeAll (entry_target e) (transaction_observed m)\<rparr>
      else m)"

definition transaction_callback_prod ::
  "int \<Rightarrow> page \<Rightarrow> entry list \<Rightarrow> anim_module \<Rightarrow> anim_module" where
  "transaction_callback_prod now pg entries m = fold (transaction_entry_prod now pg) entries m"

text \<open>\<^verbatim>\<open>Animations.restart\<close>.\<close>

definition restart :: "int \<Rightarrow> page \<Rightarrow> anim_module \<Rightarrow> anim_module" where
  "restart now pg m =
     (let m' = m\<lparr>hasTransactionAnimated := False\<rparr>
      in case transactionSection pg of
           None \<Rightarrow> m'
         | Some section \<Rightarrow> animateTransactions now pg m')"

text \<open>\<^verbatim>\<open>Animations.fallback\<close>.\<close>

definition anim_fallback :: "int \<Rightarrow> page \<Rightarrow> anim_module \<Rightarrow> anim_module" where
  "anim_fallback now pg m =
     (let m1 = fold (\<lambda>(i, el) m.
                       m\<lparr>anim_timers :=
                           setTimeout (AnimateIn el) (int i * STAGGER_DELAY) now (anim_timers m)\<rparr>)
                    (enumerate 0 (animateElements pg)) m
      in m1\<lparr>anim_timers := setTimeout TransactionFallback 2000 now (anim_timers m1)\<rparr>)"

text \<open>The module before anything has run, watching the section if there is one.\<close>

definition anim_module0 :: "page \<Rightarrow> anim_module" where
  "anim_module0 pg =
     \<lparr>hasTransactionAnimated = False,
      transaction_observed = (case transactionSection pg of None \<Rightarrow> [] | Some s \<Rightarrow> [s]),
      anim_timers = [], transaction_runs = []\<rparr>"

text \<open>
  The specification's fallback schedule: item \<open>i\<close> at 500 ms plus 200 ms times \<open>i\<close>.
\<close>

definition spec_fallback_delay :: "nat \<Rightarrow> int" where
  "spec_fallback_delay i = 500 + 200 * int i"

section \<open>Application start\<close>

text \<open>
  What a module's \<^verbatim>\<open>init()\<close> does when called: it returns, or it throws. A module of the
  list is its name and that behaviour.
\<close>

datatype init_outcome = Returns | Throws js_error

text \<open>
  The trace of a start: the modules whose \<^verbatim>\<open>init\<close> was called, the names pushed on
  \<^verbatim>\<open>state.modules\<close>, the errors caught and logged, and an error that left the start
  uncaught, if any.
\<close>

record start_trace =
  invoked :: "string list"
  modules_ok :: "string list"
  caught :: "js_error list"
  uncaught :: "js_error option"

definition start_trace0 :: start_trace where
  "start_trace0 = \<lparr>invoked = [], modules_ok = [], caught = [], uncaught = None\<rparr>"

text \<open>
  \<^verbatim>\<open>ZOQQApp.initModules\<close> of the instrumented variant: the \<^verbatim>\<open>try\<close> is inside the
  \<^verbatim>\<open>forEach\<close> callback.
\<close>

fun initModules :: "(string \<times> init_outcome) list \<Rightarrow> start_trace \<Rightarrow> start_trace" where
  "initModules [] tr = tr"
| "initModules ((name, m) # ms) tr =
     (case m of
        Returns \<Rightarrow>
          initModules ms (tr\<lparr>invoked := invoked tr @ [name], modules_ok := modules_ok tr @ [name]\<rparr>)
      | Throws e \<Rightarrow>
          initModules ms (tr\<lparr>invoked := invoked tr @ [name], caught := caught tr @ [e]\<rparr>))"

text \<open>
  The production \<^verbatim>\<open>modules.forEach(module => module.init?.())\<close>: a throw leaves the
  \<^verbatim>\<open>forEach\<close>; the result is the trace so far and the exception under way, if any.
\<close>

fun forEach_init ::
  "(string \<times> init_outcome) list \<Rightarrow> start_trace \<Rightarrow> start_trace \<times> js_error option"
where
  "forEach_init [] tr = (tr, None)"
| "forEach_init ((name, m) # ms) tr =
     (case m of
        Returns \<Rightarrow> forEach_init ms (tr\<lparr>invoked := invoked tr @ [name]\<rparr>)
      | Throws e \<Rightarrow> (tr\<lparr>invoked := invoked tr @ [name]\<rparr>, Some e))"

text \<open>
  The production \<^verbatim>\<open>ZOQQApp.init\<close>; \<open>hasRIC\<close> is \<^verbatim>\<open>'requestIdleCallback' in window\<close>. With it
  the \<^verbatim>\<open>forEach\<close> runs later in the idle callback, outside the \<^verbatim>\<open>try\<close>, and a throw is
  uncaught; without it the enclosing \<^verbatim>\<open>catch\<close> takes the throw.
\<close>

definition app_init :: "bool \<Rightarrow> (string \<times> init_outcome) list \<Rightarrow> start_trace" where
  "app_init hasRIC ms =
     (case forEach_init ms start_trace0 of
        (tr, None) \<Rightarrow> tr
      | (tr, Some e) \<Rightarrow>
          if hasRIC then tr\<lparr>uncaught := Some e\<rparr> else tr\<lparr>caught := caught tr @ [e]\<rparr>)"

section \<open>Search interface: the demo sequence\<close>

text \<open>
  A timeline: the clock, the pending timeouts (due time and callback, in registration
  order), the timeouts fired so far (due time, time fired, callback) and the changes made
  to the page, oldest first.
\<close>

datatype effect =
    Display string string
  | InputValue string
  | InputAppend char
  | ItemVisible nat
  | ItemGlow nat
  | ItemSettle nat

record 'cb timeline =
  clock :: int
  timers :: "(int \<times> 'cb) list"
  fired :: "(int \<times> int \<times> 'cb) list"
  effects :: "effect list"

text \<open>
  The page of the search widget: the ids of the phase elements that exist, whether
  \<^verbatim>\<open>#searchInput\<close> exists, and the number of \<^verbatim>\<open>.suggestion-item\<close> elements.
\<close>

record search_page =
  phase_ids :: "string list"
  has_searchInput :: bool
  suggestionItems :: nat

text \<open>
  The timer queue of the host: the timeout that falls due first fires first, the one
  registered first among equals; it fires no earlier than it is due (\<open>late\<close> ms after it
  could), and its callback runs to completion at that clock.
\<close>

fun earliest :: "(int \<times> 'cb) list \<Rightarrow> (int \<times> 'cb) option" where
  "earliest [] = None"
| "earliest (t # ts) =
     (case earliest ts of
        None \<Rightarrow> Some t
      | Some u \<Rightarrow> if fst t \<le> fst u then Some t else Some u)"

definition fire :: "('cb \<Rightarrow> 'cb timeline \<Rightarrow> 'cb timeline) \<Rightarrow> nat \<Rightarrow> 'cb timeline \<Rightarrow> 'cb timeline" where
  "fire exec late w =
     (case earliest (timers w) of
        None \<Rightarrow> w
      | Some (due, cb) \<Rightarrow>
          let t = max (clock w) due + int late
          in exec cb (w\<lparr>clock := t, timers := remove1 (due, cb) (timers w),
                        fired := fired w @ [(due, t, cb)]\<rparr>))"

definition run_timers ::
  "('cb \<Rightarrow> 'cb timeline \<Rightarrow> 'cb timeline) \<Rightarrow> nat list \<Rightarrow> 'cb timeline \<Rightarrow> 'cb timeline" where
  "run_timers exec lates w = fold (fire exec) lates w"

definition later :: "'cb \<Rightarrow> int \<Rightarrow> 'cb timeline \<Rightarrow> 'cb timeline" where
  "later cb delay w = w\<lparr>timers := setTimeout cb delay (clock w) (timers w)\<rparr>"

definition effect :: "effect \<Rightarrow> 'cb timeline \<Rightarrow> 'cb timeline" where
  "effect e w = w\<lparr>effects := effects w @ [e]\<rparr>"

definition timeline0 :: "int \<Rightarrow> 'cb timeline" where
  "timeline0 now = \<lparr>clock = now, timers = [], fired = [], effects = []\<rparr>"

subsection \<open>The instrumented variant: \<^verbatim>\<open>SearchInterface\<close>\<close>

text \<open>
  The timeout callbacks: the three phase steps set by \<^verbatim>\<open>startAnimationSequence\<close>; the
  500 ms hide of \<^verbatim>\<open>hidePhase\<close>; a tick of the typing interval (index and text so far); a
  suggestion item's entrance and the end of its glow.
\<close>

datatype search_cb =
    PhaseInput
  | PhaseProcessing
  | PhaseResults
  | HideNow string
  | TypeTick nat string
  | SuggestionIn nat
  | EntranceDone nat

definition showPhase :: "search_page \<Rightarrow> string \<Rightarrow> search_cb timeline \<Rightarrow> search_cb timeline" where
  "showPhase pg phaseId w =
     (if phaseId \<in> set (phase_ids pg) then effect (Display phaseId ''block'') w else w)"

definition hidePhase :: "search_page \<Rightarrow> string \<Rightarrow> search_cb timeline \<Rightarrow> search_cb timeline" where
  "hidePhase pg phaseId w =
     (if phaseId \<in> set (phase_ids pg) then later (HideNow phaseId) 500 w else w)"

definition targetText :: string where
  "targetText = ''Jack I''"

definition startTypingAnimation :: "search_page \<Rightarrow> search_cb timeline \<Rightarrow> search_cb timeline" where
  "startTypingAnimation pg w =
     (if \<not> has_searchInput pg then w else later (TypeTick 0 []) 200 w)"

definition showSuggestions :: "search_page \<Rightarrow> search_cb timeline \<Rightarrow> search_cb timeline" where
  "showSuggestions pg w =
     fold (\<lambda>index w. later (SuggestionIn index) (800 + (int index * 300)) w)
          [0..<suggestionItems pg] w"

fun search_exec :: "search_page \<Rightarrow> search_cb \<Rightarrow> search_cb timeline \<Rightarrow> search_cb timeline" where
  "search_exec pg PhaseInput w =
     startTypingAnimation pg (showPhase pg ''phaseInput'' (hidePhase pg ''phaseIcon'' w))"
| "search_exec pg PhaseProcessing w =
     showPhase pg ''phaseProcessing'' (hidePhase pg ''phaseInput'' w)"
| "search_exec pg PhaseResults w =
     showSuggestions pg (showPhase pg ''phaseResults'' (hidePhase pg ''phaseProcessing'' w))"
| "search_exec pg (HideNow phaseId) w = effect (Display phaseId ''none'') w"
| "search_exec pg (TypeTick index currentText) w =
     (if index < length targetText
      then later (TypeTick (index + 1) (currentText @ [targetText ! index])) 200
             (effect (InputValue (currentText @ [targetText ! index])) w)
      else w)"
| "search_exec pg (SuggestionIn index) w =
     later (EntranceDone index) 300 (effect (ItemGlow index) (effect (ItemVisible index) w))"
| "search_exec pg (EntranceDone index) w = effect (ItemSettle index) w"

text \<open>\<^verbatim>\<open>SearchInterface.startAnimationSequence\<close>.\<close>

definition startAnimationSequence :: "search_page \<Rightarrow> search_cb timeline \<Rightarrow> search_cb timeline" where
  "startAnimationSequence pg w =
     later PhaseResults 7500
       (later PhaseProcessing 5500
         (later PhaseInput 3000
           (showPhase pg ''phaseIcon'' w)))"

subsection \<open>The production variant: \<^verbatim>\<open>SearchUI\<close>\<close>

text \<open>
  The timeout callbacks: the step of phase \<open>i\<close>, the next call of \<^verbatim>\<open>type\<close> (with its
  index), a suggestion item's entrance.
\<close>

datatype search_cb_prod = PhaseStep nat | TypeNext nat | SuggestionIn_prod nat

definition phases :: "string list" where
  "phases = [''#phaseIcon'', ''#phaseInput'', ''#phaseProcessing'', ''#phaseResults'']"

text \<open>The id an id selector \<^verbatim>\<open>#id\<close> asks for.\<close>

fun selector_id :: "string \<Rightarrow> string option" where
  "selector_id [] = None"
| "selector_id (c # i) = (if c = CHR ''#'' then Some i else None)"

text \<open>\<^verbatim>\<open>$(phaseId)?.style.setProperty('display', v)\<close>.\<close>

definition setDisplay ::
  "search_page \<Rightarrow> string \<Rightarrow> string \<Rightarrow> search_cb_prod timeline \<Rightarrow> search_cb_prod timeline" where
  "setDisplay pg phaseId v w =
     (case selector_id phaseId of
        None \<Rightarrow> w
      | Some i \<Rightarrow> if i \<in> set (phase_ids pg) then effect (Display i v) w else w)"

text \<open>\<^verbatim>\<open>type()\<close> with the index at \<open>i\<close>.\<close>

definition type_prod :: "nat \<Rightarrow> search_cb_prod timeline \<Rightarrow> search_cb_prod timeline" where
  "type_prod i w =
     (if i < length targetText
      then later (TypeNext (i + 1)) 200 (effect (InputAppend (targetText ! i)) w)
      else w)"

definition typeText :: "search_page \<Rightarrow> search_cb_prod timeline \<Rightarrow> search_cb_prod timeline" where
  "typeText pg w = (if \<not> has_searchInput pg then w else type_prod 0 w)"

definition showSuggestions_prod ::
  "search_page \<Rightarrow> search_cb_prod timeline \<Rightarrow> search_cb_prod timeline" where
  "showSuggestions_prod pg w =
     fold (\<lambda>i w. later (SuggestionIn_prod i) (800 + int i * 300) w) [0..<suggestionItems pg] w"

text \<open>
  \<^verbatim>\<open>phases[i]\<close>; beyond the array it is \<^verbatim>\<open>undefined\<close>, which as a selector finds nothing.
\<close>

definition phase_at :: "nat \<Rightarrow> string" where
  "phase_at i = (if i < length phases then phases ! i else ''undefined'')"

fun search_exec_prod ::
  "search_page \<Rightarrow> search_cb_prod \<Rightarrow> search_cb_prod timeline \<Rightarrow> search_cb_prod timeline" where
  "search_exec_prod pg (PhaseStep i) w =
     (let w1 = (if i > 0 then setDisplay pg (phase_at (i - 1)) ''none'' w else w);
          w2 = setDisplay pg (phase_at i) ''block'' w1;
          w3 = (if i = 1 then typeText pg w2 else w2)
      in if i = 3 then showSuggestions_prod pg w3 else w3)"
| "search_exec_prod pg (TypeNext i) w = type_prod i w"
| "search_exec_prod pg (SuggestionIn_prod i) w = effect (ItemVisible i) w"

text \<open>\<^verbatim>\<open>SearchUI.startSequence\<close>.\<close>

definition startSequence :: "search_cb_prod timeline \<Rightarrow> search_cb_prod timeline" where
  "startSequence w =
     fold (\<lambda>i w. later (PhaseStep i) (int i * 2000 + 500) w) [0..<length phases] w"

subsection \<open>The phase steps of a timeline\<close>

text \<open>
  The phase callbacks of the two variants, and their offsets as written in
  \<^verbatim>\<open>startAnimationSequence\<close> (3000, 5500, 7500) and \<^verbatim>\<open>startSequence\<close> (\<open>i * 2000 + 500\<close>).
\<close>

fun is_phase :: "search_cb \<Rightarrow> bool" where
  "is_phase PhaseInput = True"
| "is_phase PhaseProcessing = True"
| "is_phase PhaseResults = True"
| "is_phase _ = False"

fun is_phase_prod :: "search_cb_prod \<Rightarrow> bool" where
  "is_phase_prod (PhaseStep i) = True"
| "is_phase_prod _ = False"

definition phase_offsets :: "(int \<times> search_cb) list" where
  "phase_offsets = [(3000, PhaseInput), (5500, PhaseProcessing), (7500, PhaseResults)]"

definition phase_offsets_prod :: "(int \<times> search_cb_prod) list" where
  "phase_offsets_prod =
     [(500, PhaseStep 0), (2500, PhaseStep 1), (4500, PhaseStep 2), (6500, PhaseStep 3)]"

text \<open>
  The specification's timeline: each action at \<open>triggerTime + offset\<close>, in the order of the
  list.
\<close>

definition absolute :: "int \<Rightarrow> (int \<times> 'cb) list \<Rightarrow> (int \<times> 'cb) list" where
  "absolute triggerTime offsets = map (\<lambda>(offset, cb). (triggerTime + offset, cb)) offsets"

text \<open>
  Of the callbacks selected by \<open>P\<close>: those fired so far, in firing order with the time
  each was due, and those still pending, in registration order.
\<close>

definition fired_of :: "('cb \<Rightarrow> bool) \<Rightarrow> (int \<times> int \<times> 'cb) list \<Rightarrow> (int \<times> 'cb) list" where
  "fired_of P fs = map (\<lambda>(due, t, cb). (due, cb)) (filter (\<lambda>(due, t, cb). P cb) fs)"

definition pending_of :: "('cb \<Rightarrow> bool) \<Rightarrow> (int \<times> 'cb) list \<Rightarrow> (int \<times> 'cb) list" where
  "pending_of P ts = filter (\<lambda>(due, cb). P cb) ts"

text \<open>Every timeout fired no earlier than it was due.\<close>

definition punctual :: "(int \<times> int \<times> 'cb) list \<Rightarrow> bool" where
  "punctual fs = list_all (\<lambda>(due, t, cb). due \<le> t) fs"


section \<open>Concrete pages and elements\<close>

text \<open>
  The numbers of these elements, closures and timestamps are doubles, and so is every
  result the driver computes from them where they are used below: on them the exact host
  computes what a browser computes.
\<close>

definition counter_el :: "rat element" where
  "counter_el = \<lparr>data_target = Num 1234, data_duration = Num 2000, data_decimals = Num 0,
     data_prefix = Some ''$'', data_suffix = Some ''+'', textContent = ''0'', classList = []\<rparr>"

definition slow_el :: "rat element" where
  "slow_el = \<lparr>data_target = Num 100, data_duration = Num (- 1000), data_decimals = NaN,
     data_prefix = None, data_suffix = None, textContent = ''0'', classList = []\<rparr>"

definition slow_counter :: "rat counter" where
  "slow_counter = \<lparr>target = 100, duration = - 1000, decimals = 0, prefix = [], suffix = [],
     startTime = 100\<rparr>"

definition counter_1234 :: "rat counter" where
  "counter_1234 = \<lparr>target = 1234, duration = 2000, decimals = 0, prefix = ''$'', suffix = ''+'',
     startTime = 100\<rparr>"



definition nan_el :: "rat element" where
  "nan_el = \<lparr>data_target = NaN, data_duration = Num 2000, data_decimals = NaN,
     data_prefix = None, data_suffix = None, textContent = ''n/a'', classList = []\<rparr>"

definition negative_decimals_el :: "rat element" where
  "negative_decimals_el = \<lparr>data_target = Num 1234, data_duration = Num 2000,
     data_decimals = Num (- 1), data_prefix = Some ''$'', data_suffix = Some ''+'',
     textContent = ''0'', classList = []\<rparr>"

text \<open>
  Three batches of entries for the stats observer, with clock readings: element 5
  intersects four times.
\<close>

definition stats_batches :: "(rat \<times> entry list) list" where
  "stats_batches =
     [(100, [\<lparr>entry_target = 5, isIntersecting = True\<rparr>,
             \<lparr>entry_target = 7, isIntersecting = True\<rparr>]),
      (400, [\<lparr>entry_target = 5, isIntersecting = True\<rparr>]),
      (900, [\<lparr>entry_target = 5, isIntersecting = False\<rparr>,
             \<lparr>entry_target = 5, isIntersecting = True\<rparr>])]"

definition entry_on :: "nat \<Rightarrow> entry" where
  "entry_on x = \<lparr>entry_target = x, isIntersecting = True\<rparr>"

definition entry_off :: "nat \<Rightarrow> entry" where
  "entry_off x = \<lparr>entry_target = x, isIntersecting = False\<rparr>"

definition demo_page :: page where
  "demo_page = \<lparr>animateElements = [1, 2, 3], transactionItems = [10, 11],
     transactionSection = Some 5\<rparr>"

definition failing_modules :: "(string \<times> init_outcome) list" where
  "failing_modules =
     [(''MobileNav'', Returns), (''ScrollFX'', Throws TypeError), (''StatsCounter'', Returns),
      (''Animations'', Returns), (''SmoothScroll'', Returns), (''NavStates'', Returns),
      (''SearchUI'', Returns), (''Buttons'', Returns)]"

definition search_page0 :: search_page where
  "search_page0 = \<lparr>phase_ids = [''phaseIcon'', ''phaseInput'', ''phaseProcessing'', ''phaseResults''],
     has_searchInput = True, suggestionItems = 2\<rparr>"

definition lates0 :: "nat list" where
  "lates0 = [0, 5000, 0, 0, 0, 0, 0, 0, 0, 0, 0, 0, 0, 0, 0, 0, 0, 0, 0, 0]"

section \<open>The counter driver\<close>

subsection \<open>The order of the host's numbers\<close>

lemma at_most_refl: "x \<noteq> NotANumber \<Longrightarrow> at_most x x"
  by (cases x) simp_all

lemma at_most_trans: "at_most x y \<Longrightarrow> at_most y z \<Longrightarrow> at_most x z"
  by (cases x; cases y; cases z) simp_all

lemma at_most_between:
  "at_most (Finite a) v \<Longrightarrow> at_most v (Finite b) \<Longrightarrow> \<exists>r. v = Finite r \<and> a \<le> r \<and> r \<le> b"
  by (cases v) simp_all

lemma at_most_not_nan: "at_most x y \<Longrightarrow> x \<noteq> NotANumber \<and> y \<noteq> NotANumber"
  by (cases x; cases y) simp_all

lemma below_at_most:
  "x \<noteq> NotANumber \<Longrightarrow> y \<noteq> NotANumber \<Longrightarrow> below x y = (\<not> at_most y x)"
  by (cases x; cases y) auto

lemma at_most_Finite: "at_most (Finite a) (Finite b) = (a \<le> b)"
  by simp

subsection \<open>The laws of the host\<close>

lemma lit_values:
  assumes "ieee_identities h"
  shows "val h (lit h 0) = Finite 0" and "val h (lit h 1) = Finite 1"
    and "val h (lit h 2000) = Finite 2000"
  using assms by (simp_all add: ieee_identities_def)

lemma host_identities:
  assumes "ieee_identities h"
  shows "fsub h x (lit h 0) = x" and "fadd h (lit h 0) x = x" and "fmul h x (lit h 1) = x"
    and "fpow h (lit h 0) 4 = lit h 0" and "fsub h (lit h 1) (lit h 1) = lit h 0"
  using assms by (simp_all add: ieee_identities_def)

lemma finite_identities:
  assumes "ieee_identities h" and "is_finite (val h x)"
  shows "fsub h x x = lit h 0" and "fmul h x (lit h 0) = lit h 0"
  using assms by (simp_all add: ieee_identities_def)

lemma zero_quotient:
  assumes "ieee_identities h" and "val h d \<noteq> Finite 0" and "val h d \<noteq> NotANumber"
  shows "fdiv h (lit h 0) d = lit h 0"
  using assms by (simp add: ieee_identities_def)

lemma order_laws:
  assumes "ieee_order h"
  shows "is_finite (val h z) \<Longrightarrow> at_most (val h x) (val h y) \<Longrightarrow>
           at_most (val h (fsub h x z)) (val h (fsub h y z))"
    and "is_finite (val h z) \<Longrightarrow> at_most (val h x) (val h y) \<Longrightarrow>
           at_most (val h (fsub h z y)) (val h (fsub h z x))"
    and "is_finite (val h d) \<Longrightarrow> below (Finite 0) (val h d) \<Longrightarrow>
           at_most (val h x) (val h y) \<Longrightarrow> at_most (val h (fdiv h x d)) (val h (fdiv h y d))"
    and "is_finite (val h d) \<Longrightarrow> below (Finite 0) (val h d) \<Longrightarrow>
           at_most (val h x) (val h y) \<Longrightarrow> at_most (val h (fmul h d x)) (val h (fmul h d y))"
    and "is_finite (val h d) \<Longrightarrow> below (Finite 0) (val h d) \<Longrightarrow>
           at_most (Finite 1) (val h (fdiv h e d)) = at_most (val h d) (val h e)"
  using assms unfolding ieee_order_def by blast+

lemma exact_identities: "ieee_identities exact"
  by (simp add: ieee_identities_def exact_def)

lemma exact_order: "ieee_order exact"
  by (simp add: ieee_order_def exact_def divide_right_mono mult_left_mono le_divide_eq)

lemma exact_pow_unit: "pow_unit exact"
  by (simp add: pow_unit_def exact_def)

lemma exact_pow_monotone: "pow_monotone exact"
  by (simp add: pow_monotone_def exact_def power_mono)

subsection \<open>A frame\<close>

lemma progress_eq:
  "progress h c t = Math_min h (fdiv h (fsub h t (startTime c)) (duration c)) (lit h 1)"
  by (simp add: progress_def Let_def)

lemma Math_min_done:
  assumes "ieee_identities h" and "at_most (Finite 1) (val h x)"
  shows "Math_min h x (lit h 1) = lit h 1"
  using assms(2) by (cases "val h x") (simp_all add: Math_min_def lt_def lit_values [OF assms(1)])

lemma Math_min_running:
  assumes "ieee_identities h"
  shows "lt h (Math_min h x (lit h 1)) (lit h 1) = lt h x (lit h 1)"
  by (cases "val h x") (simp_all add: Math_min_def lt_def lit_values [OF assms])

lemma Math_min_not_above:
  assumes "ieee_identities h"
  shows "\<not> lt h (lit h 1) (Math_min h x (lit h 1))"
  by (cases "val h x") (simp_all add: Math_min_def lt_def lit_values [OF assms])

lemma progress_done:
  assumes "ieee_identities h"
    and "at_most (Finite 1) (val h (fdiv h (fsub h t (startTime c)) (duration c)))"
  shows "progress h c t = lit h 1"
  unfolding progress_eq using assms by (rule Math_min_done)

lemma progress_running:
  assumes "ieee_identities h"
  shows "lt h (progress h c t) (lit h 1) =
    lt h (fdiv h (fsub h t (startTime c)) (duration c)) (lit h 1)"
  unfolding progress_eq using assms by (rule Math_min_running)

lemma easeOutQuart_one:
  assumes "ieee_identities h"
  shows "easeOutQuart h (lit h 1) = lit h 1"
  by (simp add: easeOutQuart_def host_identities [OF assms])

lemma easeOutQuart_zero:
  assumes "ieee_identities h" and "pow_unit h"
  shows "easeOutQuart h (lit h 0) = lit h 0"
  using assms(2) by (simp add: easeOutQuart_def host_identities [OF assms(1)] pow_unit_def)

lemma currentValue_current:
  assumes "ieee_identities h"
  shows "currentValue h c t = current h c t"
  by (simp add: currentValue_def current_def Let_def host_identities [OF assms])

lemma current_done:
  assumes "ieee_identities h" and "progress h c t = lit h 1"
  shows "current h c t = target c"
  by (simp add: current_def assms(2) easeOutQuart_one [OF assms(1)] host_identities [OF assms(1)])

lemma textContent_classList_add [simp]: "textContent (classList_add k el) = textContent el"
  by (simp add: classList_add_def)

lemma textContent_classList_remove [simp]: "textContent (classList_remove k el) = textContent el"
  by (simp add: classList_remove_def)





text \<open>The text a frame writes, in both variants.\<close>

lemma written_updateCounter:
  "written (updateCounter h c t el) =
     (case formattedValue h (decimals c) (currentValue h c t) of
        Inl e \<Rightarrow> Inl e
      | Inr txt \<Rightarrow> Inr (prefix c @ txt @ suffix c,
                        if lt h (progress h c t) (lit h 1) then RequestFrame else Timeout 600))"
  by (simp add: written_def updateCounter_def split: sum.splits)

lemma written_update:
  "written (update h c t el) =
     (case formatted h (decimals c) (current h c t) of
        Inl e \<Rightarrow> Inl e
      | Inr txt \<Rightarrow> Inr (prefix c @ txt @ suffix c,
                        if lt h (progress h c t) (lit h 1) then RequestFrame else Nothing))"
  by (simp add: written_def update_def split: sum.splits)

lemma formatted_formattedValue: "0 \<le> dec \<Longrightarrow> formatted h dec v = formattedValue h dec v"
  by (simp add: formatted_def formattedValue_def)

subsection \<open>The value of a frame\<close>

text \<open>
  Claim C2, as the code has it: on every frame, in both variants, the value formatted
  and written is \<open>start + (target - start) * (1 - (1 - t)^4)\<close>, computed in the host's
  arithmetic, with \<open>start = 0\<close> and \<open>t = Math.min(elapsed / duration, 1)\<close>: the exponent is
  4 and \<open>t\<close> is never above 1. There is no lower bound: \<open>t\<close> is the specification's
  \<open>clamp(elapsed / duration, 0, 1)\<close> exactly when \<open>elapsed / duration\<close> is not below 0.
\<close>

theorem frame_value_formula:
  assumes "ieee_identities h"
  shows "progress h c t = Math_min h (fdiv h (fsub h t (startTime c)) (duration c)) (lit h 1)
   \<and> \<not> lt h (lit h 1) (progress h c t)
   \<and> currentValue h c t = spec_value h (lit h 0) (target c) (progress h c t)
   \<and> current h c t = spec_value h (lit h 0) (target c) (progress h c t)
   \<and> written (updateCounter h c t el) =
       (case formattedValue h (decimals c)
               (spec_value h (lit h 0) (target c) (progress h c t)) of
          Inl e \<Rightarrow> Inl e
        | Inr txt \<Rightarrow>
            Inr (prefix c @ txt @ suffix c,
                 if lt h (progress h c t) (lit h 1) then RequestFrame else Timeout 600))
   \<and> written (update h c t el) =
       (case formatted h (decimals c)
               (spec_value h (lit h 0) (target c) (progress h c t)) of
          Inl e \<Rightarrow> Inl e
        | Inr txt \<Rightarrow>
            Inr (prefix c @ txt @ suffix c,
                 if lt h (progress h c t) (lit h 1) then RequestFrame else Nothing))
   \<and> (progress h c t =
          clamp h (fdiv h (fsub h t (startTime c)) (duration c)) (lit h 0) (lit h 1))
       = (\<not> lt h (fdiv h (fsub h t (startTime c)) (duration c)) (lit h 0))"
proof -
  note i = assms(1)
  have p: "progress h c t = Math_min h (fdiv h (fsub h t (startTime c)) (duration c)) (lit h 1)"
    by (rule progress_eq)
  have l: "\<not> lt h (lit h 1) (progress h c t)"
    unfolding progress_eq by (rule Math_min_not_above [OF i])
  have a: "currentValue h c t = spec_value h (lit h 0) (target c) (progress h c t)"
    by (simp add: currentValue_def spec_value_def easeOutQuart_def Let_def)
  have b: "current h c t = spec_value h (lit h 0) (target c) (progress h c t)"
    unfolding currentValue_current [OF i, symmetric] by (rule a)
  have d: "(progress h c t =
          clamp h (fdiv h (fsub h t (startTime c)) (duration c)) (lit h 0) (lit h 1))
       = (\<not> lt h (fdiv h (fsub h t (startTime c)) (duration c)) (lit h 0))"
    by (cases "val h (fdiv h (fsub h t (startTime c)) (duration c))")
       (auto simp: clamp_def progress_eq Math_min_def Math_max_def lt_def lit_values [OF i])
  have u: "written (updateCounter h c t el) =
       (case formattedValue h (decimals c)
               (spec_value h (lit h 0) (target c) (progress h c t)) of
          Inl e \<Rightarrow> Inl e
        | Inr txt \<Rightarrow>
            Inr (prefix c @ txt @ suffix c,
                 if lt h (progress h c t) (lit h 1) then RequestFrame else Timeout 600))"
    unfolding written_updateCounter a ..
  have v: "written (update h c t el) =
       (case formatted h (decimals c)
               (spec_value h (lit h 0) (target c) (progress h c t)) of
          Inl e \<Rightarrow> Inl e
        | Inr txt \<Rightarrow>
            Inr (prefix c @ txt @ suffix c,
                 if lt h (progress h c t) (lit h 1) then RequestFrame else Nothing))"
    unfolding written_update b ..
  from p l a b u v d show ?thesis by blast
qed

text \<open>
  Claim C2 at a frame half-way through a 2000 ms run towards 1234, where no operation
  rounds.
\<close>

theorem frame_value_formula_witness:
  "val exact (progress exact counter_1234 1100) = Finite (1 / 2)
   \<and> val exact (currentValue exact counter_1234 1100) = Finite (9255 / 8)
   \<and> val exact (current exact counter_1234 1100) = Finite (9255 / 8)
   \<and> val exact (clamp exact
        (fdiv exact (fsub exact 1100 (startTime counter_1234)) (duration counter_1234))
        (lit exact 0) (lit exact 1)) = Finite (1 / 2)"
proof -
  note f = frame_value_formula [OF exact_identities, of counter_1234 1100 counter_el]
  have h: "\<not> lt exact
      (fdiv exact (fsub exact 1100 (startTime counter_1234)) (duration counter_1234))
      (lit exact 0)"
    by (simp add: counter_1234_def exact_def lt_def)
  have m: "val exact (Math_min exact
      (fdiv exact (fsub exact 1100 (startTime counter_1234)) (duration counter_1234))
      (lit exact 1)) = Finite (1 / 2)"
    by code_simp
  have s: "val exact (spec_value exact (lit exact 0) (target counter_1234)
      (Math_min exact
        (fdiv exact (fsub exact 1100 (startTime counter_1234)) (duration counter_1234))
        (lit exact 1))) = Finite (9255 / 8)"
    by code_simp
  from f have p: "progress exact counter_1234 1100 = Math_min exact
      (fdiv exact (fsub exact 1100 (startTime counter_1234)) (duration counter_1234))
      (lit exact 1)"
    by (rule conjunct1)
  from f have cv: "currentValue exact counter_1234 1100 =
      spec_value exact (lit exact 0) (target counter_1234) (progress exact counter_1234 1100)"
    and cu: "current exact counter_1234 1100 =
      spec_value exact (lit exact 0) (target counter_1234) (progress exact counter_1234 1100)"
    by blast+
  from f h have cl: "progress exact counter_1234 1100 = clamp exact
      (fdiv exact (fsub exact 1100 (startTime counter_1234)) (duration counter_1234))
      (lit exact 0) (lit exact 1)"
    by blast
  have 1: "val exact (progress exact counter_1234 1100) = Finite (1 / 2)"
    unfolding p by (rule m)
  have 2: "val exact (currentValue exact counter_1234 1100) = Finite (9255 / 8)"
    unfolding cv unfolding p by (rule s)
  have 3: "val exact (current exact counter_1234 1100) = Finite (9255 / 8)"
    unfolding cu unfolding p by (rule s)
  have 4: "val exact (clamp exact
        (fdiv exact (fsub exact 1100 (startTime counter_1234)) (duration counter_1234))
        (lit exact 0) (lit exact 1)) = Finite (1 / 2)"
    unfolding cl [symmetric] by (rule 1)
  from 1 2 3 4 show ?thesis by blast
qed

text \<open>
  Claim C2 as stated fails below zero: with \<^verbatim>\<open>data-duration="-1000"\<close> and 500 ms elapsed
  the driver computes \<open>t = -1/2\<close> and writes \<open>-407\<close>, where the clamped formula gives 0.
  Every operation of this frame is exact in doubles.
\<close>

theorem clamp_below_counterexample:
  "animateCounter exact 100 slow_el = (classList_add ''counting'' slow_el, Some slow_counter)
   \<and> val exact (progress exact slow_counter 600) = Finite (- 1 / 2)
   \<and> val exact (currentValue exact slow_counter 600) = Finite (- 1625 / 4)
   \<and> val exact (spec_value exact (lit exact 0) (target slow_counter)
        (clamp exact (fdiv exact (fsub exact 600 (startTime slow_counter)) (duration slow_counter))
           (lit exact 0) (lit exact 1))) = Finite 0
   \<and> written (updateCounter exact slow_counter 600 (classList_add ''counting'' slow_el)) =
       Inr (''-407'', RequestFrame)"
  by code_simp

subsection \<open>The last frame\<close>




subsection \<open>A target that is not a number\<close>

text \<open>
  Claim C4: for an element whose \<^verbatim>\<open>data-target\<close> parses to \<^verbatim>\<open>NaN\<close>, both drivers return
  normally with the element untouched and no frame callback registered; whatever frames
  follow, no text is written.
\<close>

theorem nan_target_aborts:
  assumes "data_target el = NaN"
  shows "animateCounter h now el = (el, None) \<and> animate h now el = (el, None)
       \<and> animateCounter_run h now el ts = ([], NotScheduled)
       \<and> animate_run h now el ts = ([], NotScheduled)"
  using assms by (simp add: animateCounter_def animate_def animateCounter_run_def animate_run_def)

text \<open>
  Claim C4 for an element with a non-numeric target and two later frames.
\<close>

theorem nan_target_aborts_witness:
  "animateCounter exact 100 nan_el = (nan_el, None) \<and> animate exact 100 nan_el = (nan_el, None)
   \<and> animateCounter_run exact 100 nan_el [116, 133] = ([], NotScheduled)
   \<and> animate_run exact 100 nan_el [116, 133] = ([], NotScheduled)"
proof -
  have h: "data_target nan_el = NaN" by (simp add: nan_el_def)
  from nan_target_aborts [OF h] show ?thesis by blast
qed

subsection \<open>The two drivers side by side\<close>

text \<open>
  As long as the number of decimals is not negative, the two drivers write the same texts
  and end in the same state over any frames.
\<close>

lemma run_frames_agree:
  assumes i: "ieee_identities h" and d: "0 \<le> decimals c"
  shows "run_frames (updateCounter h c) ts el = run_frames (update h c) ts el'"
proof (induction ts arbitrary: el el')
  case Nil
  show ?case by simp
next
  case (Cons t ts)
  have f: "formatted h (decimals c) (current h c t) =
      formattedValue h (decimals c) (currentValue h c t)"
    using d by (simp add: formatted_formattedValue currentValue_current [OF i])
  show ?case
  proof (cases "formattedValue h (decimals c) (currentValue h c t)")
    case (Inl e)
    then have "updateCounter h c t el = Inl e" and "update h c t el' = Inl e"
      by (simp_all add: updateCounter_def update_def f)
    then show ?thesis by simp
  next
    case (Inr str)
    show ?thesis
    proof (cases "lt h (progress h c t) (lit h 1)")
      case True
      with Inr have u: "updateCounter h c t el =
          Inr (el\<lparr>textContent := prefix c @ str @ suffix c\<rparr>, RequestFrame)"
        and v: "update h c t el' =
          Inr (el'\<lparr>textContent := prefix c @ str @ suffix c\<rparr>, RequestFrame)"
        by (simp_all add: updateCounter_def update_def f)
      from Cons.IH [of "el\<lparr>textContent := prefix c @ str @ suffix c\<rparr>"
          "el'\<lparr>textContent := prefix c @ str @ suffix c\<rparr>"]
      show ?thesis by (simp add: u v)
    next
      case False
      with Inr have u: "updateCounter h c t el =
          Inr (classList_add ''completed'' (classList_remove ''counting''
                 (el\<lparr>textContent := prefix c @ str @ suffix c\<rparr>)), Timeout 600)"
        and v: "update h c t el' =
          Inr (el'\<lparr>textContent := prefix c @ str @ suffix c\<rparr>, Nothing)"
        by (simp_all add: updateCounter_def update_def f)
      show ?thesis by (simp add: u v)
    qed
  qed
qed

lemma drivers_agree:
  "ieee_identities h \<Longrightarrow> 0 \<le> or_default (data_decimals el) 0 \<Longrightarrow>
   animateCounter_run h now el ts = animate_run h now el ts"
  by (cases "data_target el")
     (simp_all add: animateCounter_run_def animate_run_def animateCounter_def animate_def
        run_frames_agree)

text \<open>
  Claim C10 says the two drivers write the same strings on every frame. With
  \<^verbatim>\<open>data-decimals="-1"\<close> they do not: the instrumented driver floors and writes \<open>$843+\<close>,
  the production driver calls \<^verbatim>\<open>toFixed(-1)\<close>, which throws, and writes nothing. Every
  operation of this frame is exact in doubles.
\<close>

theorem negative_decimals_diverge:
  "animateCounter_run exact 100 negative_decimals_el [600] = ([''$843+''], Pending)
   \<and> animate_run exact 100 negative_decimals_el [600] = ([], Threw RangeError)"
  by code_simp
subsection \<open>A run of the instrumented driver without decimals\<close>

lemma updateCounter_floor:
  "decimals c \<le> 0 \<Longrightarrow>
   updateCounter h c t el =
     (if lt h (progress h c t) (lit h 1)
      then Inr (el\<lparr>textContent :=
                    prefix c @ floor_text h (currentValue h c t) @ suffix c\<rparr>,
                RequestFrame)
      else Inr (classList_add ''completed'' (classList_remove ''counting''
                  (el\<lparr>textContent :=
                      prefix c @ floor_text h (currentValue h c t) @ suffix c\<rparr>)),
                Timeout 600))"
  by (simp add: updateCounter_def formattedValue_def)

lemma run_frames_step:
  assumes "decimals c \<le> 0"
  shows "run_frames (updateCounter h c) (t # ts) el =
     (if lt h (progress h c t) (lit h 1)
      then ((prefix c @ floor_text h (currentValue h c t) @ suffix c)
              # fst (run_frames (updateCounter h c) ts
                      (el\<lparr>textContent :=
                          prefix c @ floor_text h (currentValue h c t) @ suffix c\<rparr>)),
            snd (run_frames (updateCounter h c) ts
                   (el\<lparr>textContent :=
                       prefix c @ floor_text h (currentValue h c t) @ suffix c\<rparr>)))
      else ([prefix c @ floor_text h (currentValue h c t) @ suffix c], Finished))"
proof -
  note u = updateCounter_floor [OF assms, of h t el]
  show ?thesis
    by (cases "lt h (progress h c t) (lit h 1)") (simp_all add: u split_beta)
qed

lemma run_frames_floor_texts:
  "decimals c \<le> 0 \<Longrightarrow>
   fst (run_frames (updateCounter h c) ts el) =
     map (\<lambda>t. prefix c @ floor_text h (currentValue h c t) @ suffix c)
       (takeWhile (\<lambda>t. lt h (progress h c t) (lit h 1)) ts
          @ take 1 (dropWhile (\<lambda>t. lt h (progress h c t) (lit h 1)) ts))"
proof (induction ts arbitrary: el)
  case Nil
  show ?case by simp
next
  case (Cons t ts)
  from Cons.IH [OF Cons.prems,
      of "el\<lparr>textContent := prefix c @ floor_text h (currentValue h c t) @ suffix c\<rparr>"]
  show ?case
    by (simp add: run_frames_step [OF Cons.prems] del: run_frames.simps)
qed

lemma run_frames_floor_status:
  "decimals c \<le> 0 \<Longrightarrow>
   snd (run_frames (updateCounter h c) ts el) =
     (if \<forall>t\<in>set ts. lt h (progress h c t) (lit h 1) then Pending else Finished)"
proof (induction ts arbitrary: el)
  case Nil
  show ?case by simp
next
  case (Cons t ts)
  from Cons.IH [OF Cons.prems,
      of "el\<lparr>textContent := prefix c @ floor_text h (currentValue h c t) @ suffix c\<rparr>"]
  show ?case
    by (simp add: run_frames_step [OF Cons.prems] del: run_frames.simps)
qed

lemma frames_taken:
  "takeWhile P xs @ take 1 (dropWhile P xs) = take (Suc (length (takeWhile P xs))) xs"
  by (induction xs) simp_all

lemma last_frame_taken:
  assumes "\<exists>x\<in>set xs. \<not> P x"
  shows "takeWhile P xs @ take 1 (dropWhile P xs) \<noteq> []
    \<and> \<not> P (last (takeWhile P xs @ take 1 (dropWhile P xs)))
    \<and> last (takeWhile P xs @ take 1 (dropWhile P xs)) \<in> set xs"
proof -
  from assms have d: "dropWhile P xs \<noteq> []" by (simp add: dropWhile_eq_Nil_conv)
  then obtain y ys where y: "dropWhile P xs = y # ys" by (cases "dropWhile P xs") auto
  then have "\<not> P y" using hd_dropWhile [OF d] by simp
  moreover have "y \<in> set xs" using y set_dropWhileD [of y P xs] by simp
  ultimately show ?thesis by (simp add: y)
qed

text \<open>A frame that is not before the start: every value in it lies between 0 and its bound.\<close>

lemma elapsed_nonneg:
  assumes i: "ieee_identities h" and o: "ieee_order h"
    and s: "is_finite (val h s)" and a: "at_most (val h s) (val h t)"
  shows "at_most (Finite 0) (val h (fsub h t s))"
  using order_laws(1) [OF o s a] by (simp add: finite_identities [OF i s] lit_values [OF i])

lemma positive_divisor:
  "val h d = Finite D \<Longrightarrow> 0 < D \<Longrightarrow>
   is_finite (val h d) \<and> below (Finite 0) (val h d) \<and> val h d \<noteq> Finite 0
   \<and> val h d \<noteq> NotANumber"
  by simp

lemma ratio_nonneg:
  assumes i: "ieee_identities h" and o: "ieee_order h"
    and d: "val h d = Finite D" "0 < D" and e: "at_most (Finite 0) (val h e)"
  shows "at_most (Finite 0) (val h (fdiv h e d))"
proof -
  note p = positive_divisor [OF d]
  from e have "at_most (val h (lit h 0)) (val h e)" by (simp add: lit_values [OF i])
  from order_laws(3) [OF o _ _ this, of d] p
  have "at_most (val h (fdiv h (lit h 0) d)) (val h (fdiv h e d))" by blast
  then show ?thesis
    using p by (simp add: zero_quotient [OF i] lit_values [OF i])
qed

lemma Math_min_unit:
  assumes i: "ieee_identities h" and x: "at_most (Finite 0) (val h x)"
  shows "at_most (Finite 0) (val h (Math_min h x (lit h 1)))
    \<and> at_most (val h (Math_min h x (lit h 1))) (Finite 1)"
  using x by (cases "val h x") (simp_all add: Math_min_def lt_def lit_values [OF i])

lemma Math_min_mono:
  assumes i: "ieee_identities h" and x: "at_most (val h x) (val h y)"
  shows "at_most (val h (Math_min h x (lit h 1))) (val h (Math_min h y (lit h 1)))"
  using x by (cases "val h x"; cases "val h y")
    (auto simp: Math_min_def lt_def lit_values [OF i])

lemma complement_unit:
  assumes i: "ieee_identities h" and o: "ieee_order h"
    and x: "at_most (Finite 0) (val h x)" "at_most (val h x) (Finite 1)"
  shows "at_most (Finite 0) (val h (fsub h (lit h 1) x))
    \<and> at_most (val h (fsub h (lit h 1) x)) (Finite 1)"
proof -
  have f: "is_finite (val h (lit h 1))" by (simp add: lit_values [OF i])
  from x(2) have "at_most (val h x) (val h (lit h 1))" by (simp add: lit_values [OF i])
  from order_laws(2) [OF o f this]
  have a: "at_most (Finite 0) (val h (fsub h (lit h 1) x))"
    by (simp add: host_identities [OF i] lit_values [OF i])
  from x(1) have "at_most (val h (lit h 0)) (val h x)" by (simp add: lit_values [OF i])
  from order_laws(2) [OF o f this]
  have b: "at_most (val h (fsub h (lit h 1) x)) (Finite 1)"
    by (simp add: host_identities [OF i] lit_values [OF i])
  from a b show ?thesis ..
qed

lemma complement_antimono:
  assumes i: "ieee_identities h" and o: "ieee_order h"
    and x: "at_most (val h x) (val h y)"
  shows "at_most (val h (fsub h (lit h 1) y)) (val h (fsub h (lit h 1) x))"
proof -
  have f: "is_finite (val h (lit h 1))" by (simp add: lit_values [OF i])
  from order_laws(2) [OF o f x] show ?thesis .
qed

lemma pow_unit_interval:
  assumes i: "ieee_identities h" and u: "pow_unit h" and m: "pow_monotone h"
    and x: "at_most (Finite 0) (val h x)" "at_most (val h x) (Finite 1)"
  shows "at_most (Finite 0) (val h (fpow h x 4)) \<and> at_most (val h (fpow h x 4)) (Finite 1)"
proof -
  have z: "at_most (Finite 0) (val h (lit h 0))" by (simp add: lit_values [OF i])
  from x(1) have "at_most (val h (lit h 0)) (val h x)" by (simp add: lit_values [OF i])
  with m z have "at_most (val h (fpow h (lit h 0) 4)) (val h (fpow h x 4))"
    unfolding pow_monotone_def by blast
  then have a: "at_most (Finite 0) (val h (fpow h x 4))"
    by (simp add: host_identities [OF i] lit_values [OF i])
  from x(2) have "at_most (val h x) (val h (lit h 1))" by (simp add: lit_values [OF i])
  with m x(1) have "at_most (val h (fpow h x 4)) (val h (fpow h (lit h 1) 4))"
    unfolding pow_monotone_def by blast
  with u have b: "at_most (val h (fpow h x 4)) (Finite 1)"
    by (simp add: pow_unit_def lit_values [OF i])
  from a b show ?thesis ..
qed

lemma easeOutQuart_unit:
  assumes i: "ieee_identities h" and o: "ieee_order h" and u: "pow_unit h"
    and m: "pow_monotone h"
    and x: "at_most (Finite 0) (val h p)" "at_most (val h p) (Finite 1)"
  shows "at_most (Finite 0) (val h (easeOutQuart h p))
    \<and> at_most (val h (easeOutQuart h p)) (Finite 1)"
proof -
  from complement_unit [OF i o x]
  have a: "at_most (Finite 0) (val h (fsub h (lit h 1) p))"
    and b: "at_most (val h (fsub h (lit h 1) p)) (Finite 1)" by blast+
  from pow_unit_interval [OF i u m a b]
  have c: "at_most (Finite 0) (val h (fpow h (fsub h (lit h 1) p) 4))"
    and d: "at_most (val h (fpow h (fsub h (lit h 1) p) 4)) (Finite 1)" by blast+
  from complement_unit [OF i o c d] show ?thesis by (simp add: easeOutQuart_def)
qed

lemma easeOutQuart_mono:
  assumes i: "ieee_identities h" and o: "ieee_order h" and m: "pow_monotone h"
    and x: "at_most (val h p) (val h q)" and q: "at_most (val h q) (Finite 1)"
  shows "at_most (val h (easeOutQuart h p)) (val h (easeOutQuart h q))"
proof -
  have f: "is_finite (val h (lit h 1))" by (simp add: lit_values [OF i])
  from q have "at_most (val h q) (val h (lit h 1))" by (simp add: lit_values [OF i])
  from order_laws(2) [OF o f this]
  have a: "at_most (Finite 0) (val h (fsub h (lit h 1) q))"
    by (simp add: host_identities [OF i] lit_values [OF i])
  note b = complement_antimono [OF i o x]
  from m a b
  have "at_most (val h (fpow h (fsub h (lit h 1) q) 4)) (val h (fpow h (fsub h (lit h 1) p) 4))"
    unfolding pow_monotone_def by blast
  from complement_antimono [OF i o this] show ?thesis by (simp add: easeOutQuart_def)
qed

lemma progress_unit:
  assumes i: "ieee_identities h" and o: "ieee_order h"
    and d: "val h (duration c) = Finite D" "0 < D"
    and s: "is_finite (val h (startTime c))" and a: "at_most (val h (startTime c)) (val h t)"
  shows "at_most (Finite 0) (val h (progress h c t))
    \<and> at_most (val h (progress h c t)) (Finite 1)"
  unfolding progress_eq
  by (intro Math_min_unit [OF i] ratio_nonneg [OF i o d] elapsed_nonneg [OF i o s a])

lemma progress_mono:
  assumes i: "ieee_identities h" and o: "ieee_order h"
    and d: "val h (duration c) = Finite D" "0 < D"
    and s: "is_finite (val h (startTime c))" and a: "at_most (val h t) (val h t')"
  shows "at_most (val h (progress h c t)) (val h (progress h c t'))"
proof -
  note p = positive_divisor [OF d]
  note e = order_laws(1) [OF o s a]
  from order_laws(3) [OF o _ _ e, of "duration c"] p
  have "at_most (val h (fdiv h (fsub h t (startTime c)) (duration c)))
     (val h (fdiv h (fsub h t' (startTime c)) (duration c)))" by blast
  from Math_min_mono [OF i this] show ?thesis unfolding progress_eq .
qed

lemma target_factor:
  assumes i: "ieee_identities h" and o: "ieee_order h"
    and g: "val h g = Finite G" "0 < G" and x: "at_most (val h x) (val h y)"
  shows "at_most (val h (fmul h g x)) (val h (fmul h g y))"
proof -
  note p = positive_divisor [OF g]
  from order_laws(4) [OF o _ _ x, of g] p show ?thesis by blast
qed

lemma currentValue_bounds:
  assumes i: "ieee_identities h" and o: "ieee_order h" and u: "pow_unit h"
    and m: "pow_monotone h"
    and g: "val h (target c) = Finite G" "0 < G"
    and d: "val h (duration c) = Finite D" "0 < D"
    and s: "is_finite (val h (startTime c))" and a: "at_most (val h (startTime c)) (val h t)"
  shows "\<exists>r. val h (currentValue h c t) = Finite r \<and> 0 \<le> r \<and> r \<le> G"
proof -
  from progress_unit [OF i o d s a]
  have p: "at_most (Finite 0) (val h (progress h c t))"
    "at_most (val h (progress h c t)) (Finite 1)" by blast+
  from easeOutQuart_unit [OF i o u m p]
  have e: "at_most (val h (lit h 0)) (val h (easeOutQuart h (progress h c t)))"
    "at_most (val h (easeOutQuart h (progress h c t))) (val h (lit h 1))"
    by (simp_all add: lit_values [OF i])
  have f: "is_finite (val h (target c))" by (simp add: g)
  from target_factor [OF i o g e(1)]
  have lo: "at_most (Finite 0) (val h (current h c t))"
    by (simp add: current_def finite_identities [OF i f] lit_values [OF i])
  from target_factor [OF i o g e(2)]
  have hi: "at_most (val h (current h c t)) (Finite G)"
    by (simp add: current_def host_identities [OF i] g)
  from at_most_between [OF lo hi] show ?thesis
    by (simp add: currentValue_current [OF i])
qed

lemma currentValue_mono:
  assumes i: "ieee_identities h" and o: "ieee_order h" and m: "pow_monotone h"
    and g: "val h (target c) = Finite G" "0 < G"
    and d: "val h (duration c) = Finite D" "0 < D"
    and s: "is_finite (val h (startTime c))"
    and b: "at_most (val h t) (val h t')"
  shows "at_most (val h (currentValue h c t)) (val h (currentValue h c t'))"
proof -
  have q: "at_most (val h (progress h c t')) (Finite 1)"
  proof -
    from b have n: "val h t' \<noteq> NotANumber" by (simp add: at_most_not_nan)
    have "\<not> lt h (lit h 1) (progress h c t')"
      unfolding progress_eq by (rule Math_min_not_above [OF i])
    moreover have "val h (progress h c t') \<noteq> NotANumber"
      using progress_mono [OF i o d s b] by (simp add: at_most_not_nan)
    ultimately show ?thesis
      by (cases "val h (progress h c t')") (simp_all add: lt_def lit_values [OF i])
  qed
  from easeOutQuart_mono [OF i o m progress_mono [OF i o d s b] q]
  have "at_most (val h (easeOutQuart h (progress h c t)))
     (val h (easeOutQuart h (progress h c t')))" .
  from target_factor [OF i o g this] show ?thesis
    by (simp add: currentValue_current [OF i] current_def)
qed

lemma floor_text_finite:
  "val h x = Finite r \<Longrightarrow> floor_text h x = int_text h \<lfloor>rational (val h x)\<rfloor>"
  by (simp add: floor_text_def number_text_def)

lemma shown_values_sorted:
  assumes i: "ieee_identities h" and o: "ieee_order h" and u: "pow_unit h"
    and m: "pow_monotone h"
    and g: "val h (target c) = Finite G" "0 < G"
    and d: "val h (duration c) = Finite D" "0 < D"
    and s: "is_finite (val h (startTime c))"
    and a: "\<forall>t\<in>set ts. at_most (val h (startTime c)) (val h t)"
    and b: "sorted_wrt (\<lambda>t t'. at_most (val h t) (val h t')) ts"
  shows "sorted (map (\<lambda>t. \<lfloor>rational (val h (currentValue h c t))\<rfloor>) (take n ts))"
proof -
  have step: "\<lfloor>rational (val h (currentValue h c t))\<rfloor>
      \<le> \<lfloor>rational (val h (currentValue h c t'))\<rfloor>"
    if "t \<in> set ts" and "t' \<in> set ts" and "at_most (val h t) (val h t')" for t t'
  proof -
    from a that(1) have at: "at_most (val h (startTime c)) (val h t)" by blast
    from a that(2) have at': "at_most (val h (startTime c)) (val h t')" by blast
    from currentValue_bounds [OF i o u m g d s at]
    obtain r where r: "val h (currentValue h c t) = Finite r" by blast
    from currentValue_bounds [OF i o u m g d s at']
    obtain r' where r': "val h (currentValue h c t') = Finite r'" by blast
    from currentValue_mono [OF i o m g d s that(3)] have "r \<le> r'" by (simp add: r r')
    then show ?thesis by (simp add: r r' floor_mono)
  qed
  from b have "sorted_wrt (\<lambda>t t'. \<lfloor>rational (val h (currentValue h c t))\<rfloor>
      \<le> \<lfloor>rational (val h (currentValue h c t'))\<rfloor>) ts"
    by (rule sorted_wrt_mono_rel [rotated]) (rule step)
  then have "sorted_wrt (\<lambda>t t'. \<lfloor>rational (val h (currentValue h c t))\<rfloor>
      \<le> \<lfloor>rational (val h (currentValue h c t'))\<rfloor>) (take n ts)"
    by (rule sorted_wrt_take)
  then show ?thesis by (simp add: sorted_map)
qed

lemma currentValue_start:
  assumes i: "ieee_identities h" and u: "pow_unit h"
    and g: "is_finite (val h (target c))"
    and d: "val h (duration c) = Finite D" "0 < D"
    and s: "is_finite (val h (startTime c))"
  shows "currentValue h c (startTime c) = lit h 0"
proof -
  note p = positive_divisor [OF d]
  have "progress h c (startTime c) = lit h 0"
    using p by (simp add: progress_eq finite_identities [OF i s] zero_quotient [OF i]
        Math_min_def lt_def lit_values [OF i])
  then show ?thesis
    by (simp add: currentValue_current [OF i] current_def easeOutQuart_zero [OF i u]
        finite_identities [OF i g])
qed

lemma int_text_0: "int_text h 0 = ''0''"
  by (simp add: int_text_def show_int_def show_nat.simps [of 0] digit_def)

lemma show_int_1234: "show_int 1234 = ''1234''"
  by code_simp

lemma int_text_1234: "int_text h 1234 = ''1234''"
  by (simp add: int_text_def show_int_1234)

lemma frame_finishes:
  assumes i: "ieee_identities h" and o: "ieee_order h"
    and d: "val h (duration c) = Finite D" "0 < D"
    and s: "is_finite (val h (startTime c))" and a: "at_most (val h (startTime c)) (val h t)"
  shows "(\<not> lt h (progress h c t) (lit h 1))
     = at_most (Finite D) (val h (fsub h t (startTime c)))"
    and "\<not> lt h (progress h c t) (lit h 1) \<Longrightarrow> progress h c t = lit h 1"
proof -
  note p = positive_divisor [OF d]
  from ratio_nonneg [OF i o d elapsed_nonneg [OF i o s a]]
  have n: "val h (fdiv h (fsub h t (startTime c)) (duration c)) \<noteq> NotANumber"
    by (simp add: at_most_not_nan)
  have r: "(\<not> lt h (progress h c t) (lit h 1))
     = at_most (Finite 1) (val h (fdiv h (fsub h t (startTime c)) (duration c)))"
  proof -
    have "lt h (progress h c t) (lit h 1) =
        below (val h (fdiv h (fsub h t (startTime c)) (duration c))) (Finite 1)"
      unfolding progress_running [OF i] by (simp add: lt_def lit_values [OF i])
    with n show ?thesis by (simp add: below_at_most)
  qed
  from order_laws(5) [OF o, of "duration c" "fsub h t (startTime c)"] p
  show "(\<not> lt h (progress h c t) (lit h 1))
     = at_most (Finite D) (val h (fsub h t (startTime c)))"
    by (simp add: r d)
  assume "\<not> lt h (progress h c t) (lit h 1)"
  with r show "progress h c t = lit h 1"
    by (simp add: progress_done [OF i])
qed
subsection \<open>The run towards 1234\<close>

text \<open>
  Claim C7, as the code has it: a counter with target 1234, duration 2000, no decimals,
  prefix \<open>$\<close> and suffix \<open>+\<close>, started at a finite clock reading, over frames whose
  timestamps do not decrease and are not before the start. If the host's power is 1 at 1
  and monotone, the texts are \<open>$v+\<close> for integers \<open>v\<close> that never decrease. The first text
  shows the eased value of the first frame; it is \<open>$0+\<close> if the first frame has the
  timestamp of the start (and the power is 1 at 1). The run finishes exactly when a frame's
  computed elapsed time reaches 2000, and then the last text is \<open>$1234+\<close>. The production
  driver writes the same texts.
\<close>

theorem counter_1234_run:
  assumes i: "ieee_identities h" and o: "ieee_order h"
    and tg: "data_target el = Num g" "val h g = Finite 1234"
    and du: "val h (or_literal h (data_duration el) 2000) = Finite 2000"
    and de: "or_default (data_decimals el) 0 = 0"
    and pre: "or_empty (data_prefix el) = ''$''" and suf: "or_empty (data_suffix el) = ''+''"
    and st: "is_finite (val h now)"
    and after: "\<forall>t\<in>set ts. at_most (val h now) (val h t)"
    and ordered: "sorted_wrt (\<lambda>t t'. at_most (val h t) (val h t')) ts"
  shows "(pow_unit h \<and> pow_monotone h \<longrightarrow>
           (\<exists>vs. fst (animateCounter_run h now el ts) =
                   map (\<lambda>v. ''$'' @ int_text h v @ ''+'') vs \<and> sorted vs))
       \<and> (ts \<noteq> [] \<longrightarrow>
            hd (fst (animateCounter_run h now el ts)) =
              ''$'' @ floor_text h
                 (fmul h g (easeOutQuart h
                    (Math_min h
                       (fdiv h (fsub h (hd ts) now) (or_literal h (data_duration el) 2000))
                       (lit h 1)))) @ ''+'')
       \<and> (pow_unit h \<and> ts \<noteq> [] \<and> hd ts = now \<longrightarrow>
            hd (fst (animateCounter_run h now el ts)) = ''$0+'')
       \<and> (snd (animateCounter_run h now el ts) = Finished)
           = (\<exists>t\<in>set ts. at_most (Finite 2000) (val h (fsub h t now)))
       \<and> (snd (animateCounter_run h now el ts) = Finished \<longrightarrow>
            last (fst (animateCounter_run h now el ts)) = ''$1234+'')
       \<and> animate_run h now el ts = animateCounter_run h now el ts"
proof -
  define c where "c = \<lparr>target = g, duration = or_literal h (data_duration el) 2000,
    decimals = 0, prefix = ''$'', suffix = ''+'', startTime = now\<rparr>"
  define P where "P = (\<lambda>t. lt h (progress h c t) (lit h 1))"
  define shown where "shown = takeWhile P ts @ take 1 (dropWhile P ts)"
  have c_simps: "target c = g" "duration c = or_literal h (data_duration el) 2000"
    "decimals c = 0" "prefix c = ''$''" "suffix c = ''+''" "startTime c = now"
    by (simp_all add: c_def)
  have d: "decimals c \<le> 0" by (simp add: c_simps)
  have cg: "val h (target c) = Finite 1234" "(0::rat) < 1234"
    by (simp_all add: c_simps tg)
  have cd: "val h (duration c) = Finite 2000" "(0::rat) < 2000"
    by (simp_all add: c_simps du)
  have cs: "is_finite (val h (startTime c))" by (simp add: c_simps st)
  have ca: "\<forall>t\<in>set ts. at_most (val h (startTime c)) (val h t)"
    using after by (simp add: c_simps)
  have run: "animateCounter_run h now el ts =
      run_frames (updateCounter h c) ts (classList_add ''counting'' el)"
    by (simp add: animateCounter_run_def animateCounter_def tg de pre suf c_def)
  have texts: "fst (animateCounter_run h now el ts) =
      map (\<lambda>t. ''$'' @ floor_text h (currentValue h c t) @ ''+'') shown"
    unfolding run shown_def P_def run_frames_floor_texts [OF d]
    by (simp add: c_simps)
  have status: "snd (animateCounter_run h now el ts) =
      (if \<forall>t\<in>set ts. P t then Pending else Finished)"
    unfolding run P_def by (rule run_frames_floor_status [OF d])
  have shown_take: "shown = take (Suc (length (takeWhile P ts))) ts"
    unfolding shown_def by (rule frames_taken)
  have shown_sub: "set shown \<subseteq> set ts"
    unfolding shown_take by (rule set_take_subset)
  have mono: "\<exists>vs. fst (animateCounter_run h now el ts) =
                   map (\<lambda>v. ''$'' @ int_text h v @ ''+'') vs \<and> sorted vs"
    if u: "pow_unit h" and m: "pow_monotone h"
  proof -
    have "floor_text h (currentValue h c t) =
        int_text h \<lfloor>rational (val h (currentValue h c t))\<rfloor>" if "t \<in> set shown" for t
    proof -
      from that shown_sub ca have "at_most (val h (startTime c)) (val h t)" by blast
      from currentValue_bounds [OF i o u m cg cd cs this]
      obtain r where "val h (currentValue h c t) = Finite r" by blast
      then show ?thesis by (rule floor_text_finite)
    qed
    then have "fst (animateCounter_run h now el ts) =
        map (\<lambda>v. ''$'' @ int_text h v @ ''+'')
          (map (\<lambda>t. \<lfloor>rational (val h (currentValue h c t))\<rfloor>) shown)"
      unfolding texts by simp
    moreover have "sorted (map (\<lambda>t. \<lfloor>rational (val h (currentValue h c t))\<rfloor>) shown)"
      unfolding shown_take
      by (rule shown_values_sorted [OF i o u m cg cd cs ca ordered])
    ultimately show ?thesis by blast
  qed
  have first_any: "hd (fst (animateCounter_run h now el ts)) =
      ''$'' @ floor_text h
         (fmul h g (easeOutQuart h
            (Math_min h
               (fdiv h (fsub h (hd ts) now) (or_literal h (data_duration el) 2000))
               (lit h 1)))) @ ''+''"
    if "ts \<noteq> []"
  proof -
    from that obtain t ts' where ts': "ts = t # ts'" by (cases ts) auto
    have "currentValue h c t = fmul h g (easeOutQuart h
            (Math_min h (fdiv h (fsub h t now) (or_literal h (data_duration el) 2000))
               (lit h 1)))"
      by (simp add: currentValue_current [OF i] current_def progress_eq c_simps)
    then show ?thesis
      unfolding texts shown_def by (cases "P t") (simp_all add: ts')
  qed
  have first: "hd (fst (animateCounter_run h now el ts)) = ''$0+''"
    if u: "pow_unit h" and "ts \<noteq> []" "hd ts = now"
  proof -
    from that obtain ts' where ts': "ts = now # ts'" by (cases ts) auto
    have f: "is_finite (val h (target c))" by (simp add: cg)
    from currentValue_start [OF i u f cd cs]
    have "currentValue h c now = lit h 0" by (simp add: c_simps)
    then have "floor_text h (currentValue h c now) = ''0''"
      by (simp add: floor_text_def number_text_def lit_values [OF i] int_text_0)
    then show ?thesis
      unfolding texts shown_def by (cases "P now") (simp_all add: ts')
  qed
  have P_iff: "(\<not> P t) = at_most (Finite 2000) (val h (fsub h t now))" if "t \<in> set ts" for t
  proof -
    from that ca have "at_most (val h (startTime c)) (val h t)" by blast
    from frame_finishes(1) [OF i o cd cs this] show ?thesis
      by (simp add: P_def c_simps)
  qed
  have fin: "(snd (animateCounter_run h now el ts) = Finished)
      = (\<exists>t\<in>set ts. at_most (Finite 2000) (val h (fsub h t now)))"
  proof -
    have "(snd (animateCounter_run h now el ts) = Finished) = (\<exists>t\<in>set ts. \<not> P t)"
      unfolding status by simp
    also have "\<dots> = (\<exists>t\<in>set ts. at_most (Finite 2000) (val h (fsub h t now)))"
      using P_iff by blast
    finally show ?thesis .
  qed
  have final: "last (fst (animateCounter_run h now el ts)) = ''$1234+''"
    if "snd (animateCounter_run h now el ts) = Finished"
  proof -
    from that have "\<exists>t\<in>set ts. \<not> P t" unfolding status by (simp split: if_splits)
    from last_frame_taken [OF this]
    have ne: "shown \<noteq> []" and np: "\<not> P (last shown)" and mem: "last shown \<in> set ts"
      unfolding shown_def by blast+
    from mem ca have "at_most (val h (startTime c)) (val h (last shown))" by blast
    from frame_finishes(2) [OF i o cd cs this] np
    have "progress h c (last shown) = lit h 1" by (simp add: P_def)
    then have "currentValue h c (last shown) = g"
      by (simp add: currentValue_current [OF i] current_done [OF i] c_simps)
    then have "floor_text h (currentValue h c (last shown)) = ''1234''"
      by (simp add: floor_text_def number_text_def tg int_text_1234)
    then show ?thesis
      unfolding texts using ne by (simp add: last_map)
  qed
  have agree: "animate_run h now el ts = animateCounter_run h now el ts"
    by (rule drivers_agree [symmetric, OF i]) (simp add: de)
  from mono first_any first fin final agree show ?thesis by blast
qed

text \<open>
  Claim C7 for frames at 0, 1000 and 2000 ms after the start, where no operation rounds.
\<close>

theorem counter_1234_run_witness:
  "(\<exists>vs. fst (animateCounter_run exact 100 counter_el [100, 1100, 2100]) =
           map (\<lambda>v. ''$'' @ int_text exact v @ ''+'') vs \<and> sorted vs)
   \<and> hd (fst (animateCounter_run exact 100 counter_el [100, 1100, 2100])) = ''$0+''
   \<and> snd (animateCounter_run exact 100 counter_el [100, 1100, 2100]) = Finished
   \<and> last (fst (animateCounter_run exact 100 counter_el [100, 1100, 2100])) = ''$1234+''
   \<and> animate_run exact 100 counter_el [100, 1100, 2100] =
       animateCounter_run exact 100 counter_el [100, 1100, 2100]"
proof -
  have el: "data_target counter_el = Num 1234" "val exact 1234 = Finite 1234"
    "val exact (or_literal exact (data_duration counter_el) 2000) = Finite 2000"
    "or_default (data_decimals counter_el) 0 = 0"
    "or_empty (data_prefix counter_el) = ''$''" "or_empty (data_suffix counter_el) = ''+''"
    by (simp_all add: counter_el_def exact_def)
  have st: "is_finite (val exact 100)" by (simp add: exact_def)
  have after: "\<forall>t\<in>set [100, 1100, 2100 :: rat]. at_most (val exact 100) (val exact t)"
    by (simp add: exact_def)
  have ordered: "sorted_wrt (\<lambda>t t'. at_most (val exact t) (val exact t'))
      [100, 1100, 2100 :: rat]"
    by (simp add: exact_def)
  have h1: "[100, 1100, 2100 :: rat] \<noteq> [] \<and> hd [100, 1100, 2100 :: rat] = 100" by simp
  have h2: "\<exists>t\<in>set [100, 1100, 2100 :: rat].
      at_most (Finite 2000) (val exact (fsub exact t 100))"
    by (simp add: exact_def)
  from counter_1234_run [OF exact_identities exact_order el st after ordered]
    exact_pow_unit exact_pow_monotone h1 h2
  show ?thesis by blast
qed

text \<open>
  Claim C7 as stated fails on the first text: nothing is written before the first frame,
  and a first frame 15.625 ms after the start displays \<open>$38+\<close>. The quotient, the
  difference from 1 and the power of this frame are exact in doubles, and the value shown,
  38.11, is not within a rounding of an integer.
\<close>

theorem first_frame_counterexample:
  "animateCounter_run exact 100 counter_el [925 / 8, 1100, 2100] =
     ([''$38+'', ''$1156+'', ''$1234+''], Finished)
   \<and> animate_run exact 100 counter_el [925 / 8, 1100, 2100] =
     ([''$38+'', ''$1156+'', ''$1234+''], Finished)"
  by code_simp
section \<open>Latches, fallbacks, restart and start\<close>

subsection \<open>Timers set in a loop\<close>

lemma fold_anim_timers:
  "fold (\<lambda>(i, x) m. m\<lparr>anim_timers := setTimeout (g x) (d i) now (anim_timers m)\<rparr>) ixs m =
     m\<lparr>anim_timers := anim_timers m @ map (\<lambda>(i, x). (now + d i, g x)) ixs\<rparr>"
  by (induction ixs arbitrary: m) (simp_all add: setTimeout_def split_beta)

lemma fold_stats_timers:
  "fold (\<lambda>(i, x) m. m\<lparr>stats_timers := setTimeout (g x) (d i) now (stats_timers m)\<rparr>) ixs m =
     m\<lparr>stats_timers := stats_timers m @ map (\<lambda>(i, x). (now + d i, g x)) ixs\<rparr>"
  by (induction ixs arbitrary: m) (simp_all add: setTimeout_def split_beta)

lemma animateTransactionSection_eq:
  "animateTransactionSection now pg m =
     m\<lparr>transaction_runs := transaction_runs m @ [now],
       anim_timers := anim_timers m
         @ map (\<lambda>(i, x). (now + int i * 200, ItemAppear x)) (enumerate 0 (transactionItems pg))
         @ [(now + (int (length (transactionItems pg)) * 200 + 500), AnimateCircles),
            (now + (int (length (transactionItems pg)) * 200 + 2000), ListScroll)]\<rparr>"
  unfolding animateTransactionSection_def Let_def fold_anim_timers
  by (simp add: setTimeout_def)

lemma animateTransactions_eq:
  "animateTransactions now pg m = animateTransactionSection now pg m"
  by (simp add: animateTransactions_def animateTransactionSection_def)

subsection \<open>The latch of the stats counters\<close>

text \<open>
  What a call of the driver changes in the module: it is recorded as a call, and it
  requests a frame for the element unless the element's target is not a number. The
  latch set and the targets of the elements are as before.
\<close>

lemma call_animateCounter_fields:
  "counter_runs (call_animateCounter h now x m) = counter_runs m @ [x]"
  "animatedStats (call_animateCounter h now x m) = animatedStats m"
  "map fst (stats_frames (call_animateCounter h now x m)) =
     map fst (stats_frames m) @ (if data_target (stats_elements m x) = NaN then [] else [x])"
  "data_target (stats_elements (call_animateCounter h now x m) y) =
     data_target (stats_elements m y)"
  by (cases "data_target (stats_elements m x)";
      simp add: call_animateCounter_def animateCounter_def classList_add_def)+

lemma call_animate_fields:
  "counter_runs (call_animate h now x m) = counter_runs m @ [x]"
  "animatedStats (call_animate h now x m) = animatedStats m"
  "map fst (stats_frames (call_animate h now x m)) =
     map fst (stats_frames m) @ (if data_target (stats_elements m x) = NaN then [] else [x])"
  "data_target (stats_elements (call_animate h now x m) y) =
     data_target (stats_elements m y)"
  by (cases "data_target (stats_elements m x)";
      simp add: call_animate_def animate_def)+

lemma stats_entry_fields:
  "counter_runs (stats_entry h now e m) =
     (if isIntersecting e \<and> entry_target e \<notin> animatedStats m
      then counter_runs m @ [entry_target e] else counter_runs m)"
  "animatedStats (stats_entry h now e m) =
     (if isIntersecting e then insert (entry_target e) (animatedStats m) else animatedStats m)"
  "map fst (stats_frames (stats_entry h now e m)) =
     (if isIntersecting e \<and> entry_target e \<notin> animatedStats m
         \<and> data_target (stats_elements m (entry_target e)) \<noteq> NaN
      then map fst (stats_frames m) @ [entry_target e] else map fst (stats_frames m))"
  "data_target (stats_elements (stats_entry h now e m) y) = data_target (stats_elements m y)"
  by (auto simp: stats_entry_def call_animateCounter_fields)

lemma stats_entry_prod_fields:
  "counter_runs (stats_entry_prod h now e m) =
     (if isIntersecting e \<and> entry_target e \<notin> animatedStats m
      then counter_runs m @ [entry_target e] else counter_runs m)"
  "animatedStats (stats_entry_prod h now e m) =
     (if isIntersecting e then insert (entry_target e) (animatedStats m) else animatedStats m)"
  "map fst (stats_frames (stats_entry_prod h now e m)) =
     (if isIntersecting e \<and> entry_target e \<notin> animatedStats m
         \<and> data_target (stats_elements m (entry_target e)) \<noteq> NaN
      then map fst (stats_frames m) @ [entry_target e] else map fst (stats_frames m))"
  "data_target (stats_elements (stats_entry_prod h now e m) y) =
     data_target (stats_elements m y)"
  by (auto simp: stats_entry_prod_def call_animate_fields)

text \<open>
  What the latch keeps, whatever entries arrive: no element is handed to the driver
  twice, the elements handed over are those of the latch set, and the frames requested
  are those of the elements handed over whose target is a number.
\<close>

lemma stats_callback_latch:
  assumes "distinct (counter_runs m)" and "set (counter_runs m) = animatedStats m"
    and "\<forall>y. data_target (stats_elements m y) = data_target (els y)"
    and "map fst (stats_frames m) = filter (\<lambda>y. data_target (els y) \<noteq> NaN) (counter_runs m)"
  shows "distinct (counter_runs (stats_callback h now es m))
       \<and> set (counter_runs (stats_callback h now es m)) =
           animatedStats (stats_callback h now es m)
       \<and> (\<forall>y. data_target (stats_elements (stats_callback h now es m) y) = data_target (els y))
       \<and> map fst (stats_frames (stats_callback h now es m)) =
           filter (\<lambda>y. data_target (els y) \<noteq> NaN) (counter_runs (stats_callback h now es m))
       \<and> animatedStats (stats_callback h now es m) =
           animatedStats m \<union> entry_target ` {e \<in> set es. isIntersecting e}"
  using assms unfolding stats_callback_def
proof (induction es arbitrary: m)
  case Nil
  then show ?case by simp
next
  case (Cons e es)
  have "distinct (counter_runs (stats_entry h now e m))"
    and "set (counter_runs (stats_entry h now e m)) = animatedStats (stats_entry h now e m)"
    and "\<forall>y. data_target (stats_elements (stats_entry h now e m) y) = data_target (els y)"
    and "map fst (stats_frames (stats_entry h now e m)) =
      filter (\<lambda>y. data_target (els y) \<noteq> NaN) (counter_runs (stats_entry h now e m))"
    using Cons.prems by (auto simp: stats_entry_fields)
  from Cons.IH [OF this] show ?case
    by (auto simp: stats_entry_fields)
qed

lemma stats_callback_prod_latch:
  assumes "distinct (counter_runs m)" and "set (counter_runs m) = animatedStats m"
    and "\<forall>y. data_target (stats_elements m y) = data_target (els y)"
    and "map fst (stats_frames m) = filter (\<lambda>y. data_target (els y) \<noteq> NaN) (counter_runs m)"
  shows "distinct (counter_runs (stats_callback_prod h now es m))
       \<and> set (counter_runs (stats_callback_prod h now es m)) =
           animatedStats (stats_callback_prod h now es m)
       \<and> (\<forall>y. data_target (stats_elements (stats_callback_prod h now es m) y) =
             data_target (els y))
       \<and> map fst (stats_frames (stats_callback_prod h now es m)) =
           filter (\<lambda>y. data_target (els y) \<noteq> NaN)
             (counter_runs (stats_callback_prod h now es m))
       \<and> animatedStats (stats_callback_prod h now es m) =
           animatedStats m \<union> entry_target ` {e \<in> set es. isIntersecting e}"
  using assms unfolding stats_callback_prod_def
proof (induction es arbitrary: m)
  case Nil
  then show ?case by simp
next
  case (Cons e es)
  have "distinct (counter_runs (stats_entry_prod h now e m))"
    and "set (counter_runs (stats_entry_prod h now e m)) =
      animatedStats (stats_entry_prod h now e m)"
    and "\<forall>y. data_target (stats_elements (stats_entry_prod h now e m) y) = data_target (els y)"
    and "map fst (stats_frames (stats_entry_prod h now e m)) =
      filter (\<lambda>y. data_target (els y) \<noteq> NaN) (counter_runs (stats_entry_prod h now e m))"
    using Cons.prems by (auto simp: stats_entry_prod_fields)
  from Cons.IH [OF this] show ?case
    by (auto simp: stats_entry_prod_fields)
qed

lemma stats_batches_latch:
  assumes "distinct (counter_runs m)" and "set (counter_runs m) = animatedStats m"
    and "\<forall>y. data_target (stats_elements m y) = data_target (els y)"
    and "map fst (stats_frames m) = filter (\<lambda>y. data_target (els y) \<noteq> NaN) (counter_runs m)"
  shows "distinct (counter_runs (fold (\<lambda>(now, es). stats_callback h now es) timed m))
       \<and> set (counter_runs (fold (\<lambda>(now, es). stats_callback h now es) timed m)) =
           animatedStats m \<union> entry_target ` {e \<in> set (concat (map snd timed)). isIntersecting e}
       \<and> map fst (stats_frames (fold (\<lambda>(now, es). stats_callback h now es) timed m)) =
           filter (\<lambda>y. data_target (els y) \<noteq> NaN)
             (counter_runs (fold (\<lambda>(now, es). stats_callback h now es) timed m))"
  using assms
proof (induction timed arbitrary: m)
  case Nil
  then show ?case by simp
next
  case (Cons b timed)
  obtain now es where b: "b = (now, es)" by (cases b)
  note s = stats_callback_latch [OF Cons.prems, of h now es]
  from s have d: "distinct (counter_runs (stats_callback h now es m))"
    and e: "set (counter_runs (stats_callback h now es m)) =
      animatedStats (stats_callback h now es m)"
    and t: "\<forall>y. data_target (stats_elements (stats_callback h now es m) y) = data_target (els y)"
    and f: "map fst (stats_frames (stats_callback h now es m)) =
      filter (\<lambda>y. data_target (els y) \<noteq> NaN) (counter_runs (stats_callback h now es m))"
    and a: "animatedStats (stats_callback h now es m) =
      animatedStats m \<union> entry_target ` {e \<in> set es. isIntersecting e}"
    by blast+
  from Cons.IH [OF d e t f] a show ?case
    by (auto simp: b)
qed

lemma stats_batches_prod_latch:
  assumes "distinct (counter_runs m)" and "set (counter_runs m) = animatedStats m"
    and "\<forall>y. data_target (stats_elements m y) = data_target (els y)"
    and "map fst (stats_frames m) = filter (\<lambda>y. data_target (els y) \<noteq> NaN) (counter_runs m)"
  shows "distinct (counter_runs (fold (\<lambda>(now, es). stats_callback_prod h now es) timed m))
       \<and> set (counter_runs (fold (\<lambda>(now, es). stats_callback_prod h now es) timed m)) =
           animatedStats m \<union> entry_target ` {e \<in> set (concat (map snd timed)). isIntersecting e}
       \<and> map fst (stats_frames (fold (\<lambda>(now, es). stats_callback_prod h now es) timed m)) =
           filter (\<lambda>y. data_target (els y) \<noteq> NaN)
             (counter_runs (fold (\<lambda>(now, es). stats_callback_prod h now es) timed m))"
  using assms
proof (induction timed arbitrary: m)
  case Nil
  then show ?case by simp
next
  case (Cons b timed)
  obtain now es where b: "b = (now, es)" by (cases b)
  note s = stats_callback_prod_latch [OF Cons.prems, of h now es]
  from s have d: "distinct (counter_runs (stats_callback_prod h now es m))"
    and e: "set (counter_runs (stats_callback_prod h now es m)) =
      animatedStats (stats_callback_prod h now es m)"
    and t: "\<forall>y. data_target (stats_elements (stats_callback_prod h now es m) y) =
      data_target (els y)"
    and f: "map fst (stats_frames (stats_callback_prod h now es m)) =
      filter (\<lambda>y. data_target (els y) \<noteq> NaN) (counter_runs (stats_callback_prod h now es m))"
    and a: "animatedStats (stats_callback_prod h now es m) =
      animatedStats m \<union> entry_target ` {e \<in> set es. isIntersecting e}"
    by blast+
  from Cons.IH [OF d e t f] a show ?case
    by (auto simp: b)
qed

lemma count_list_distinct: "distinct xs \<Longrightarrow> x \<in> set xs \<Longrightarrow> count_list xs x = 1"
  by (induction xs) (auto simp: count_list_0_iff)

lemma count_list_filter:
  "count_list (filter P xs) x = (if P x then count_list xs x else 0)"
  by (induction xs) auto

subsection \<open>The latch of the transaction section\<close>

text \<open>Once the flag is set, or as long as no entry is intersecting, nothing changes.\<close>

lemma transaction_callback_idle:
  "hasTransactionAnimated m \<or> (\<forall>e\<in>set es. \<not> isIntersecting e) \<Longrightarrow>
   transaction_callback now pg es m = m"
  unfolding transaction_callback_def
  by (induction es) (auto simp: transaction_entry_def)

lemma transaction_callback_prod_idle:
  "hasTransactionAnimated m \<or> (\<forall>e\<in>set es. \<not> isIntersecting e) \<Longrightarrow>
   transaction_callback_prod now pg es m = m"
  unfolding transaction_callback_prod_def
  by (induction es) (auto simp: transaction_entry_prod_def)

text \<open>The first intersecting entry starts the sequence and sets the flag.\<close>

lemma transaction_callback_first:
  assumes "\<not> hasTransactionAnimated m" and "\<exists>e\<in>set es. isIntersecting e"
  shows "transaction_callback now pg es m =
    (animateTransactionSection now pg m)\<lparr>hasTransactionAnimated := True\<rparr>"
  using assms(2)
proof (induction es)
  case Nil
  then show ?case by simp
next
  case (Cons e es)
  show ?case
  proof (cases "isIntersecting e")
    case True
    have "transaction_callback now pg (e # es) m =
        transaction_callback now pg es (transaction_entry now pg e m)"
      by (simp add: transaction_callback_def)
    also have "\<dots> = transaction_entry now pg e m"
      by (rule transaction_callback_idle) (simp add: transaction_entry_def True assms(1))
    finally show ?thesis by (simp add: transaction_entry_def True assms(1))
  next
    case False
    with Cons.prems have "\<exists>e\<in>set es. isIntersecting e" by auto
    from Cons.IH [OF this] False show ?thesis
      by (simp add: transaction_callback_def transaction_entry_def)
  qed
qed

lemma transaction_callback_prod_first:
  assumes "\<not> hasTransactionAnimated m" and "\<exists>e\<in>set es. isIntersecting e"
  shows "\<exists>x. transaction_callback_prod now pg es m =
    (animateTransactions now pg m)
      \<lparr>hasTransactionAnimated := True,
       transaction_observed := removeAll x (transaction_observed m)\<rparr>"
  using assms(2)
proof (induction es)
  case Nil
  then show ?case by simp
next
  case (Cons e es)
  show ?case
  proof (cases "isIntersecting e")
    case True
    have "transaction_callback_prod now pg (e # es) m =
        transaction_callback_prod now pg es (transaction_entry_prod now pg e m)"
      by (simp add: transaction_callback_prod_def)
    also have "\<dots> = transaction_entry_prod now pg e m"
      by (rule transaction_callback_prod_idle)
         (simp add: transaction_entry_prod_def True assms(1))
    finally have "transaction_callback_prod now pg (e # es) m =
        (animateTransactions now pg m)
          \<lparr>hasTransactionAnimated := True,
           transaction_observed := removeAll (entry_target e) (transaction_observed m)\<rparr>"
      by (simp add: transaction_entry_prod_def True assms(1) animateTransactions_eq
          animateTransactionSection_eq)
    then show ?thesis ..
  next
    case False
    with Cons.prems have "\<exists>e\<in>set es. isIntersecting e" by auto
    from Cons.IH [OF this] False show ?thesis
      by (simp add: transaction_callback_prod_def transaction_entry_prod_def)
  qed
qed

lemma transaction_batches_idle:
  "hasTransactionAnimated m \<Longrightarrow>
   fold (\<lambda>(now, es). transaction_callback now pg es) timed m = m"
  by (induction timed) (auto simp: transaction_callback_idle)

lemma transaction_batches_prod_idle:
  "hasTransactionAnimated m \<Longrightarrow>
   fold (\<lambda>(now, es). transaction_callback_prod now pg es) timed m = m"
  by (induction timed) (auto simp: transaction_callback_prod_idle)

lemma transaction_batches_first:
  assumes "\<not> hasTransactionAnimated m"
    and "\<exists>b\<in>set timed. \<exists>e\<in>set (snd b). isIntersecting e"
  shows "\<exists>now. fold (\<lambda>(now, es). transaction_callback now pg es) timed m =
    (animateTransactionSection now pg m)\<lparr>hasTransactionAnimated := True\<rparr>"
  using assms(2)
proof (induction timed)
  case Nil
  then show ?case by simp
next
  case (Cons b timed)
  obtain now es where b: "b = (now, es)" by (cases b)
  show ?case
  proof (cases "\<exists>e\<in>set es. isIntersecting e")
    case True
    note f = transaction_callback_first [OF assms(1) True, of now pg]
    have "fold (\<lambda>(now, es). transaction_callback now pg es) (b # timed) m =
        fold (\<lambda>(now, es). transaction_callback now pg es) timed
          (transaction_callback now pg es m)"
      by (simp add: b)
    also have "\<dots> = transaction_callback now pg es m"
      by (rule transaction_batches_idle) (simp add: f)
    finally show ?thesis unfolding f ..
  next
    case False
    then have i: "transaction_callback now pg es m = m"
      by (intro transaction_callback_idle) simp
    from Cons.prems False have "\<exists>b\<in>set timed. \<exists>e\<in>set (snd b). isIntersecting e"
      by (auto simp: b)
    from Cons.IH [OF this] show ?thesis by (simp add: b i)
  qed
qed

lemma transaction_batches_prod_first:
  assumes "\<not> hasTransactionAnimated m"
    and "\<exists>b\<in>set timed. \<exists>e\<in>set (snd b). isIntersecting e"
  shows "\<exists>now x. fold (\<lambda>(now, es). transaction_callback_prod now pg es) timed m =
    (animateTransactions now pg m)
      \<lparr>hasTransactionAnimated := True,
       transaction_observed := removeAll x (transaction_observed m)\<rparr>"
  using assms(2)
proof (induction timed)
  case Nil
  then show ?case by simp
next
  case (Cons b timed)
  obtain now es where b: "b = (now, es)" by (cases b)
  show ?case
  proof (cases "\<exists>e\<in>set es. isIntersecting e")
    case True
    from transaction_callback_prod_first [OF assms(1) True, of now pg]
    obtain x where f: "transaction_callback_prod now pg es m =
        (animateTransactions now pg m)
          \<lparr>hasTransactionAnimated := True,
           transaction_observed := removeAll x (transaction_observed m)\<rparr>" ..
    have "fold (\<lambda>(now, es). transaction_callback_prod now pg es) (b # timed) m =
        fold (\<lambda>(now, es). transaction_callback_prod now pg es) timed
          (transaction_callback_prod now pg es m)"
      by (simp add: b)
    also have "\<dots> = transaction_callback_prod now pg es m"
      by (rule transaction_batches_prod_idle) (simp add: f)
    finally show ?thesis unfolding f by blast
  next
    case False
    then have i: "transaction_callback_prod now pg es m = m"
      by (intro transaction_callback_prod_idle) simp
    from Cons.prems False have "\<exists>b\<in>set timed. \<exists>e\<in>set (snd b). isIntersecting e"
      by (auto simp: b)
    from Cons.IH [OF this] show ?thesis by (simp add: b i)
  qed
qed

text \<open>
  Claim C3, as the code has it: from a fresh latch, whatever batches of entries the
  observer delivers, if at least one entry for the target is intersecting then the driver
  is called exactly once for it, and exactly one frame callback is requested for it if its
  target is a number, none if it is not (the stats counters' set, both variants); and the
  transaction sequence is started exactly once, the timeouts pending being those of one
  run (the flag, both variants).
\<close>

theorem one_shot_latch:
  "((\<exists>e\<in>set (concat (map snd batches)). entry_target e = x \<and> isIntersecting e) \<longrightarrow>
      count_list (counter_runs
        (fold (\<lambda>(now, es). stats_callback h now es) batches (stats_module0 els))) x = 1
    \<and> count_list (map fst (stats_frames
        (fold (\<lambda>(now, es). stats_callback h now es) batches (stats_module0 els)))) x =
        (if data_target (els x) = NaN then 0 else 1)
    \<and> count_list (counter_runs
        (fold (\<lambda>(now, es). stats_callback_prod h now es) batches (stats_module0 els))) x = 1
    \<and> count_list (map fst (stats_frames
        (fold (\<lambda>(now, es). stats_callback_prod h now es) batches (stats_module0 els)))) x =
        (if data_target (els x) = NaN then 0 else 1))
   \<and> ((\<exists>b\<in>set timed. \<exists>e\<in>set (snd b). isIntersecting e) \<longrightarrow>
      length (transaction_runs
        (fold (\<lambda>(now, es). transaction_callback now pg es) timed (anim_module0 pg))) = 1
    \<and> (\<exists>now. anim_timers
          (fold (\<lambda>(now, es). transaction_callback now pg es) timed (anim_module0 pg)) =
          anim_timers (animateTransactionSection now pg (anim_module0 pg)))
    \<and> length (transaction_runs
        (fold (\<lambda>(now, es). transaction_callback_prod now pg es) timed (anim_module0 pg))) = 1
    \<and> (\<exists>now. anim_timers
          (fold (\<lambda>(now, es). transaction_callback_prod now pg es) timed (anim_module0 pg)) =
          anim_timers (animateTransactions now pg (anim_module0 pg))))"
proof -
  have stats: "count_list (counter_runs
        (fold (\<lambda>(now, es). stats_callback h now es) batches (stats_module0 els))) x = 1
    \<and> count_list (map fst (stats_frames
        (fold (\<lambda>(now, es). stats_callback h now es) batches (stats_module0 els)))) x =
        (if data_target (els x) = NaN then 0 else 1)
    \<and> count_list (counter_runs
        (fold (\<lambda>(now, es). stats_callback_prod h now es) batches (stats_module0 els))) x = 1
    \<and> count_list (map fst (stats_frames
        (fold (\<lambda>(now, es). stats_callback_prod h now es) batches (stats_module0 els)))) x =
        (if data_target (els x) = NaN then 0 else 1)"
    if h: "\<exists>e\<in>set (concat (map snd batches)). entry_target e = x \<and> isIntersecting e"
  proof -
    have d: "distinct (counter_runs (stats_module0 els))"
      and e: "set (counter_runs (stats_module0 els)) = animatedStats (stats_module0 els)"
      and t: "\<forall>y. data_target (stats_elements (stats_module0 els) y) = data_target (els y)"
      and f: "map fst (stats_frames (stats_module0 els)) =
        filter (\<lambda>y. data_target (els y) \<noteq> NaN) (counter_runs (stats_module0 els))"
      by (simp_all add: stats_module0_def)
    from h have x: "x \<in> entry_target ` {e \<in> set (concat (map snd batches)). isIntersecting e}"
      by (auto simp: image_iff)
    note a = stats_batches_latch [OF d e t f, of h batches]
    note b = stats_batches_prod_latch [OF d e t f, of h batches]
    from a x have a1: "count_list (counter_runs
        (fold (\<lambda>(now, es). stats_callback h now es) batches (stats_module0 els))) x = 1"
      by (intro count_list_distinct) auto
    from b x have b1: "count_list (counter_runs
        (fold (\<lambda>(now, es). stats_callback_prod h now es) batches (stats_module0 els))) x = 1"
      by (intro count_list_distinct) auto
    from a have a2: "count_list (map fst (stats_frames
        (fold (\<lambda>(now, es). stats_callback h now es) batches (stats_module0 els)))) x =
        (if data_target (els x) = NaN then 0 else 1)"
      by (simp add: count_list_filter a1)
    from b have b2: "count_list (map fst (stats_frames
        (fold (\<lambda>(now, es). stats_callback_prod h now es) batches (stats_module0 els)))) x =
        (if data_target (els x) = NaN then 0 else 1)"
      by (simp add: count_list_filter b1)
    from a1 a2 b1 b2 show ?thesis by blast
  qed
  have trans: "length (transaction_runs
        (fold (\<lambda>(now, es). transaction_callback now pg es) timed (anim_module0 pg))) = 1
    \<and> (\<exists>now. anim_timers
          (fold (\<lambda>(now, es). transaction_callback now pg es) timed (anim_module0 pg)) =
          anim_timers (animateTransactionSection now pg (anim_module0 pg)))
    \<and> length (transaction_runs
        (fold (\<lambda>(now, es). transaction_callback_prod now pg es) timed (anim_module0 pg))) = 1
    \<and> (\<exists>now. anim_timers
          (fold (\<lambda>(now, es). transaction_callback_prod now pg es) timed (anim_module0 pg)) =
          anim_timers (animateTransactions now pg (anim_module0 pg)))"
    if h: "\<exists>b\<in>set timed. \<exists>e\<in>set (snd b). isIntersecting e"
  proof -
    have f: "\<not> hasTransactionAnimated (anim_module0 pg)"
      and r: "transaction_runs (anim_module0 pg) = []"
      by (simp_all add: anim_module0_def)
    from transaction_batches_first [OF f h, of pg]
    obtain t where t: "fold (\<lambda>(now, es). transaction_callback now pg es) timed
        (anim_module0 pg) =
        (animateTransactionSection t pg (anim_module0 pg))\<lparr>hasTransactionAnimated := True\<rparr>" ..
    from transaction_batches_prod_first [OF f h, of pg]
    obtain u x where u: "fold (\<lambda>(now, es). transaction_callback_prod now pg es) timed
        (anim_module0 pg) =
        (animateTransactions u pg (anim_module0 pg))
          \<lparr>hasTransactionAnimated := True,
           transaction_observed := removeAll x (transaction_observed (anim_module0 pg))\<rparr>"
      by blast
    have 1: "length (transaction_runs
        (fold (\<lambda>(now, es). transaction_callback now pg es) timed (anim_module0 pg))) = 1"
      unfolding t by (simp add: animateTransactionSection_eq r)
    have 2: "\<exists>now. anim_timers
          (fold (\<lambda>(now, es). transaction_callback now pg es) timed (anim_module0 pg)) =
          anim_timers (animateTransactionSection now pg (anim_module0 pg))"
      unfolding t by (intro exI [of _ t]) simp
    have 3: "length (transaction_runs
        (fold (\<lambda>(now, es). transaction_callback_prod now pg es) timed (anim_module0 pg))) = 1"
      unfolding u by (simp add: animateTransactions_eq animateTransactionSection_eq r)
    have 4: "\<exists>now. anim_timers
          (fold (\<lambda>(now, es). transaction_callback_prod now pg es) timed (anim_module0 pg)) =
          anim_timers (animateTransactions now pg (anim_module0 pg))"
      unfolding u by (intro exI [of _ u]) simp
    from 1 2 3 4 show ?thesis by blast
  qed
  from stats trans show ?thesis by blast
qed

text \<open>
  Claim C3 for four intersecting entries of element 5 in three batches, its target being
  a number, and for three intersecting entries of the transaction section in two batches.
\<close>

theorem one_shot_latch_witness:
  "count_list (counter_runs (fold (\<lambda>(now, es). stats_callback exact now es) stats_batches
      (stats_module0 (\<lambda>x. counter_el)))) 5 = 1
   \<and> count_list (map fst (stats_frames (fold (\<lambda>(now, es). stats_callback exact now es)
      stats_batches (stats_module0 (\<lambda>x. counter_el))))) 5 = 1
   \<and> count_list (counter_runs (fold (\<lambda>(now, es). stats_callback_prod exact now es)
      stats_batches (stats_module0 (\<lambda>x. counter_el)))) 5 = 1
   \<and> count_list (map fst (stats_frames (fold (\<lambda>(now, es). stats_callback_prod exact now es)
      stats_batches (stats_module0 (\<lambda>x. counter_el))))) 5 = 1
   \<and> length (transaction_runs (fold (\<lambda>(now, es). transaction_callback now demo_page es)
      [(50, [entry_on 5, entry_on 5]), (900, [entry_on 5])] (anim_module0 demo_page))) = 1
   \<and> length (transaction_runs (fold (\<lambda>(now, es). transaction_callback_prod now demo_page es)
      [(50, [entry_on 5, entry_on 5]), (900, [entry_on 5])] (anim_module0 demo_page))) = 1"
proof -
  have h1: "\<exists>e\<in>set (concat (map snd stats_batches)). entry_target e = 5 \<and> isIntersecting e"
    by (simp add: stats_batches_def)
  have h2: "\<exists>b\<in>set [(50 :: int, [entry_on 5, entry_on 5]), (900, [entry_on 5])].
      \<exists>e\<in>set (snd b). isIntersecting e"
    by (simp add: entry_on_def)
  have n: "data_target ((\<lambda>x. counter_el) (5 :: nat)) \<noteq> (NaN :: rat parsed)"
    by (simp add: counter_el_def)
  from one_shot_latch [of stats_batches 5 exact "\<lambda>x. counter_el"
      "[(50, [entry_on 5, entry_on 5]), (900, [entry_on 5])]" demo_page]
    h1 h2 n
  show ?thesis by simp
qed

text \<open>
  Claim C3 as stated fails for a counter whose target is not a number: the same entries
  hand element 5 to the driver once, and no animation run starts, in either variant.
\<close>

theorem nan_target_latch_counterexample:
  "counter_runs (fold (\<lambda>(now, es). stats_callback exact now es) stats_batches
      (stats_module0 (\<lambda>x. nan_el))) = [5, 7]
   \<and> stats_frames (fold (\<lambda>(now, es). stats_callback exact now es) stats_batches
      (stats_module0 (\<lambda>x. nan_el))) = []
   \<and> counter_runs (fold (\<lambda>(now, es). stats_callback_prod exact now es) stats_batches
      (stats_module0 (\<lambda>x. nan_el))) = [5, 7]
   \<and> stats_frames (fold (\<lambda>(now, es). stats_callback_prod exact now es) stats_batches
      (stats_module0 (\<lambda>x. nan_el))) = []"
  by code_simp

subsection \<open>Fallback schedules\<close>

text \<open>
  Claim C6, as the code has it: without \<^verbatim>\<open>IntersectionObserver\<close> the stats counter starts
  counter \<open>i\<close> at 500 ms plus 200 ms times \<open>i\<close> (both variants); the entrance fallback sets
  the class of element \<open>i\<close> at 100 ms times \<open>i\<close> and starts the transaction sequence at
  2000 ms (both variants).
\<close>

theorem fallback_schedules:
  "stats_timers (setupObserver False now els m) =
     stats_timers m @ map (\<lambda>(i, el). (now + spec_fallback_delay i, StartCounter el)) (enumerate 0 els)
   \<and> stats_timers (stats_init False now els m) =
     stats_timers m @ map (\<lambda>(i, el). (now + spec_fallback_delay i, StartCounter el)) (enumerate 0 els)
   \<and> anim_timers (anim_fallbackAnimation now pg a) =
     anim_timers a
       @ map (\<lambda>(i, el). (now + int i * 100, AnimateIn el)) (enumerate 0 (animateElements pg))
       @ [(now + 2000, TransactionFallback)]
   \<and> anim_timers (anim_fallback now pg a) =
     anim_timers a
       @ map (\<lambda>(i, el). (now + int i * 100, AnimateIn el)) (enumerate 0 (animateElements pg))
       @ [(now + 2000, TransactionFallback)]"
proof -
  have d: "(\<lambda>(i, el). (now + (500 + int i * 200), StartCounter el)) =
      (\<lambda>(i, el). (now + spec_fallback_delay i, StartCounter el))"
    by (simp add: spec_fallback_delay_def fun_eq_iff)
  have s1: "stats_timers (setupObserver False now els m) =
     stats_timers m @ map (\<lambda>(i, el). (now + spec_fallback_delay i, StartCounter el)) (enumerate 0 els)"
    unfolding setupObserver_def stats_fallbackAnimation_def fold_stats_timers
    by (simp add: d)
  have s2: "stats_timers (stats_init False now els m) =
     stats_timers m @ map (\<lambda>(i, el). (now + spec_fallback_delay i, StartCounter el)) (enumerate 0 els)"
    unfolding stats_init_def stats_fallback_def fold_stats_timers
    by (simp add: d)
  have a1: "anim_timers (anim_fallbackAnimation now pg a) =
     anim_timers a
       @ map (\<lambda>(i, el). (now + int i * 100, AnimateIn el)) (enumerate 0 (animateElements pg))
       @ [(now + 2000, TransactionFallback)]"
    unfolding anim_fallbackAnimation_def Let_def fold_anim_timers
    by (simp add: setTimeout_def STAGGER_DELAY_def)
  have a2: "anim_timers (anim_fallback now pg a) =
     anim_timers a
       @ map (\<lambda>(i, el). (now + int i * 100, AnimateIn el)) (enumerate 0 (animateElements pg))
       @ [(now + 2000, TransactionFallback)]"
    unfolding anim_fallback_def Let_def fold_anim_timers
    by (simp add: setTimeout_def STAGGER_DELAY_def)
  from s1 s2 a1 a2 show ?thesis by blast
qed

text \<open>
  Claim C6 as stated fails for the entrance fallback: its timeouts fall due at 0, 100, 200
  and 2000 ms, not at 500, 700, 900 and 1100 ms.
\<close>

theorem entrance_fallback_counterexample:
  "map fst (anim_timers (anim_fallbackAnimation 0 demo_page (anim_module0 demo_page))) =
     [0, 100, 200, 2000]
   \<and> map fst (anim_timers (anim_fallback 0 demo_page (anim_module0 demo_page))) =
     [0, 100, 200, 2000]
   \<and> map (\<lambda>i. 0 + spec_fallback_delay i) [0, 1, 2, 3] = [500, 700, 900, 1100]"
  by code_simp

subsection \<open>Restart of the transaction sequence\<close>

lemma transaction_first_run:
  "isIntersecting e \<Longrightarrow>
   anim_timers (transaction_callback t0 pg [e] (anim_module0 pg)) =
     map (\<lambda>(i, x). (t0 + int i * 200, ItemAppear x)) (enumerate 0 (transactionItems pg))
       @ [(t0 + (int (length (transactionItems pg)) * 200 + 500), AnimateCircles),
          (t0 + (int (length (transactionItems pg)) * 200 + 2000), ListScroll)]"
  by (simp add: transaction_callback_def transaction_entry_def animateTransactionSection_eq
      anim_module0_def)

lemma transaction_first_run_prod:
  "isIntersecting e \<Longrightarrow>
   anim_timers (transaction_callback_prod t0 pg [e] (anim_module0 pg)) =
     map (\<lambda>(i, x). (t0 + int i * 200, ItemAppear x)) (enumerate 0 (transactionItems pg))
       @ [(t0 + (int (length (transactionItems pg)) * 200 + 500), AnimateCircles),
          (t0 + (int (length (transactionItems pg)) * 200 + 2000), ListScroll)]"
  by (simp add: transaction_callback_prod_def transaction_entry_prod_def animateTransactions_eq
      animateTransactionSection_eq anim_module0_def)

text \<open>
  Claim C9: when the transaction section exists, a restart leaves the latch cleared, starts
  the sequence once more, and registers the timeouts of the first, observer-triggered run
  again, each at its offset from the instant of the restart (both variants).
\<close>

theorem restart_reruns_sequence:
  assumes "transactionSection pg = Some section" and "isIntersecting e"
  shows "\<not> hasTransactionAnimated (restartTransactionAnimation now pg m)
       \<and> transaction_runs (restartTransactionAnimation now pg m) = transaction_runs m @ [now]
       \<and> anim_timers (restartTransactionAnimation now pg m) =
           anim_timers m
             @ map (\<lambda>(due, cb). (due + (now - t0), cb))
                 (anim_timers (transaction_callback t0 pg [e] (anim_module0 pg)))
       \<and> \<not> hasTransactionAnimated (restart now pg m)
       \<and> transaction_runs (restart now pg m) = transaction_runs m @ [now]
       \<and> anim_timers (restart now pg m) =
           anim_timers m
             @ map (\<lambda>(due, cb). (due + (now - t0), cb))
                 (anim_timers (transaction_callback_prod t0 pg [e] (anim_module0 pg)))"
  unfolding transaction_first_run [OF assms(2)] transaction_first_run_prod [OF assms(2)]
  by (simp add: restartTransactionAnimation_def restart_def assms(1) animateTransactions_eq
      animateTransactionSection_eq split_beta)

text \<open>
  Claim C9 for a page with two transaction items: a first run at 50 ms, all its timeouts
  fired, and a restart at 9000 ms.
\<close>

theorem restart_reruns_sequence_witness:
  "hasTransactionAnimated (transaction_callback 50 demo_page [entry_on 5] (anim_module0 demo_page))
   \<and> \<not> hasTransactionAnimated (restartTransactionAnimation 9000 demo_page
         ((transaction_callback 50 demo_page [entry_on 5] (anim_module0 demo_page))
            \<lparr>anim_timers := []\<rparr>))
   \<and> anim_timers (transaction_callback 50 demo_page [entry_on 5] (anim_module0 demo_page)) =
       [(50, ItemAppear 10), (250, ItemAppear 11), (950, AnimateCircles), (2450, ListScroll)]
   \<and> anim_timers (restartTransactionAnimation 9000 demo_page
         ((transaction_callback 50 demo_page [entry_on 5] (anim_module0 demo_page))
            \<lparr>anim_timers := []\<rparr>)) =
       [(9000, ItemAppear 10), (9200, ItemAppear 11), (9900, AnimateCircles), (11400, ListScroll)]"
proof -
  let ?m = "(transaction_callback 50 demo_page [entry_on 5] (anim_module0 demo_page))
            \<lparr>anim_timers := []\<rparr>"
  have h1: "transactionSection demo_page = Some 5" by (simp add: demo_page_def)
  have h2: "isIntersecting (entry_on 5)" by (simp add: entry_on_def)
  have a: "hasTransactionAnimated
      (transaction_callback 50 demo_page [entry_on 5] (anim_module0 demo_page))"
    by code_simp
  have b: "anim_timers (transaction_callback 50 demo_page [entry_on 5] (anim_module0 demo_page)) =
       [(50, ItemAppear 10), (250, ItemAppear 11), (950, AnimateCircles), (2450, ListScroll)]"
    by code_simp
  from restart_reruns_sequence [OF h1 h2, of 9000 ?m 50]
  show ?thesis by (simp add: a b)
qed

subsection \<open>Application start\<close>

lemma initModules_trace:
  "invoked (initModules ms tr) = invoked tr @ map fst ms
   \<and> uncaught (initModules ms tr) = uncaught tr"
  by (induction ms tr rule: initModules.induct) (auto split: init_outcome.splits)

lemma forEach_init_stops:
  "forEach_init (ms @ (name, Throws e) # rest) tr = (tr', x) \<Longrightarrow>
   \<forall>m\<in>set ms. snd m = Returns \<Longrightarrow>
   invoked tr' = invoked tr @ map fst ms @ [name] \<and> x = Some e"
  by (induction ms arbitrary: tr) (auto split: init_outcome.splits)

text \<open>
  Claim C5 says a module's throw does not keep later modules from their \<^verbatim>\<open>init\<close>. In the
  production \<^verbatim>\<open>ZOQQApp.init\<close> it does: when the second module throws, only the first two
  are called, and with \<^verbatim>\<open>requestIdleCallback\<close> the error is not caught; the instrumented
  \<^verbatim>\<open>initModules\<close> calls all eight.
\<close>

theorem production_start_stops_at_throw:
  "invoked (app_init True failing_modules) = [''MobileNav'', ''ScrollFX'']
   \<and> uncaught (app_init True failing_modules) = Some TypeError
   \<and> invoked (app_init False failing_modules) = [''MobileNav'', ''ScrollFX'']
   \<and> caught (app_init False failing_modules) = [TypeError]
   \<and> invoked (initModules failing_modules start_trace0) = map fst failing_modules"
  by code_simp

section \<open>The search sequence\<close>

subsection \<open>The timer queue\<close>

lemma earliest_least:
  "earliest ts = Some e \<Longrightarrow> e \<in> set ts \<and> (\<forall>u\<in>set ts. fst e \<le> fst u)"
proof (induction ts arbitrary: e)
  case Nil
  then show ?case by simp
next
  case (Cons t ts)
  show ?case
  proof (cases "earliest ts")
    case None
    then have "ts = []" by (cases ts) (auto split: option.splits if_splits)
    with Cons.prems show ?thesis by simp
  next
    case (Some u)
    from Cons.IH [OF Some] have u: "u \<in> set ts" "\<forall>v\<in>set ts. fst u \<le> fst v" by auto
    show ?thesis
    proof (cases "fst t \<le> fst u")
      case True
      with Some Cons.prems have "e = t" by simp
      with True u show ?thesis by auto
    next
      case False
      with Some Cons.prems have "e = u" by simp
      with False u show ?thesis by auto
    qed
  qed
qed

lemma sorted_head_least:
  fixes xs :: "(int \<times> 'cb) list"
  assumes "sorted_wrt (\<lambda>a b. fst a < fst b) xs" and "e \<in> set xs"
    and "\<forall>u\<in>set xs. fst e \<le> fst u"
  shows "\<exists>rest. xs = e # rest"
proof (cases xs)
  case Nil
  with assms(2) show ?thesis by simp
next
  case (Cons h rest)
  show ?thesis
  proof (cases "e = h")
    case True
    with Cons show ?thesis by simp
  next
    case False
    with assms(2) Cons have "e \<in> set rest" by simp
    with assms(1) Cons have "fst h < fst e" by simp
    moreover from assms(3) Cons have "fst e \<le> fst h" by simp
    ultimately show ?thesis by simp
  qed
qed

lemma sorted_wrt_suffix:
  "sorted_wrt R (xs @ ys) \<Longrightarrow> sorted_wrt R ys"
  by (simp add: sorted_wrt_append)

lemma fired_of_snoc:
  "fired_of P (fs @ [(due, t, cb)]) = fired_of P fs @ (if P cb then [(due, cb)] else [])"
  by (simp add: fired_of_def)

lemma pending_of_remove1:
  "pending_of P (remove1 (due, cb) ts) =
     (if P cb then remove1 (due, cb) (pending_of P ts) else pending_of P ts)"
  by (simp add: pending_of_def filter_remove1)

lemma pending_of_mem: "P cb \<Longrightarrow> (due, cb) \<in> set ts \<Longrightarrow> (due, cb) \<in> set (pending_of P ts)"
  by (simp add: pending_of_def)

lemma pending_of_subset: "u \<in> set (pending_of P ts) \<Longrightarrow> u \<in> set ts"
  by (simp add: pending_of_def)

text \<open>
  One firing keeps the schedule: the selected callbacks fired so far, followed by those
  pending, are the list \<open>L\<close>, as long as callbacks register no selected callback.
\<close>

lemma fire_keeps_schedule:
  assumes ex_f: "\<And>cb w. fired (exec cb w) = fired w"
    and ex_t: "\<And>cb w. pending_of P (timers (exec cb w)) = pending_of P (timers w)"
    and srt: "sorted_wrt (\<lambda>a b. fst a < fst b) L"
    and inv: "fired_of P (fired w) @ pending_of P (timers w) = L"
  shows "fired_of P (fired (fire exec late w)) @ pending_of P (timers (fire exec late w)) = L"
proof (cases "earliest (timers w)")
  case None
  then show ?thesis using inv by (simp add: fire_def)
next
  case (Some e)
  obtain due cb where e: "e = (due, cb)" by (cases e)
  from earliest_least [OF Some] e
  have mem: "(due, cb) \<in> set (timers w)" and least: "\<forall>u\<in>set (timers w). due \<le> fst u"
    by auto
  define w' where "w' = w\<lparr>clock := max (clock w) due + int late,
    timers := remove1 (due, cb) (timers w),
    fired := fired w @ [(due, max (clock w) due + int late, cb)]\<rparr>"
  have f: "fire exec late w = exec cb w'"
    by (simp add: fire_def Some e w'_def Let_def)
  have fw: "fired_of P (fired (exec cb w')) =
      fired_of P (fired w) @ (if P cb then [(due, cb)] else [])"
    by (simp add: ex_f w'_def fired_of_snoc)
  have tw: "pending_of P (timers (exec cb w')) =
      (if P cb then remove1 (due, cb) (pending_of P (timers w)) else pending_of P (timers w))"
    by (simp add: ex_t w'_def pending_of_remove1)
  show ?thesis
  proof (cases "P cb")
    case False
    with fw tw inv show ?thesis by (simp add: f)
  next
    case True
    from srt inv have "sorted_wrt (\<lambda>a b. fst a < fst b) (pending_of P (timers w))"
      using sorted_wrt_suffix by metis
    moreover from True mem have "(due, cb) \<in> set (pending_of P (timers w))"
      by (rule pending_of_mem)
    moreover from least have "\<forall>u\<in>set (pending_of P (timers w)). fst (due, cb) \<le> fst u"
      by (auto dest: pending_of_subset)
    ultimately obtain rest where r: "pending_of P (timers w) = (due, cb) # rest"
      using sorted_head_least by blast
    from True fw tw inv show ?thesis by (simp add: f r)
  qed
qed

lemma run_keeps_schedule:
  assumes ex_f: "\<And>cb w. fired (exec cb w) = fired w"
    and ex_t: "\<And>cb w. pending_of P (timers (exec cb w)) = pending_of P (timers w)"
    and srt: "sorted_wrt (\<lambda>a b. fst a < fst b) L"
    and inv: "fired_of P (fired w) @ pending_of P (timers w) = L"
  shows "fired_of P (fired (run_timers exec lates w))
           @ pending_of P (timers (run_timers exec lates w)) = L"
  using inv unfolding run_timers_def
proof (induction lates arbitrary: w)
  case Nil
  then show ?case by simp
next
  case (Cons late lates)
  from fire_keeps_schedule [of exec P L w late, OF ex_f ex_t srt Cons.prems]
  have "fired_of P (fired (fire exec late w)) @ pending_of P (timers (fire exec late w)) = L" .
  from Cons.IH [OF this] show ?case by simp
qed

lemma fire_punctual:
  assumes ex_f: "\<And>cb w. fired (exec cb w) = fired w"
    and "punctual (fired w)"
  shows "punctual (fired (fire exec late w))"
proof (cases "earliest (timers w)")
  case None
  then show ?thesis using assms(2) by (simp add: fire_def)
next
  case (Some e)
  obtain due cb where e: "e = (due, cb)" by (cases e)
  show ?thesis using assms(2)
    by (simp add: fire_def Some e Let_def ex_f punctual_def)
qed

lemma run_punctual:
  assumes ex_f: "\<And>cb w. fired (exec cb w) = fired w"
    and "punctual (fired w)"
  shows "punctual (fired (run_timers exec lates w))"
  using assms(2) unfolding run_timers_def
proof (induction lates arbitrary: w)
  case Nil
  then show ?case by simp
next
  case (Cons late lates)
  from fire_punctual [of exec w late, OF ex_f Cons.prems]
  have "punctual (fired (fire exec late w))" .
  from Cons.IH [OF this] show ?case by simp
qed

subsection \<open>What the callbacks of the search widget register\<close>

lemma effect_simps [simp]:
  "fired (effect e w) = fired w" "timers (effect e w) = timers w" "clock (effect e w) = clock w"
  by (simp_all add: effect_def)

lemma later_simps [simp]:
  "fired (later cb d w) = fired w" "timers (later cb d w) = timers w @ [(clock w + d, cb)]"
  "clock (later cb d w) = clock w"
  by (simp_all add: later_def setTimeout_def)

lemma pending_of_append [simp]:
  "pending_of P (ts @ us) = pending_of P ts @ pending_of P us"
  by (simp add: pending_of_def)

lemma pending_of_single [simp]:
  "pending_of P [(due, cb)] = (if P cb then [(due, cb)] else [])"
  by (simp add: pending_of_def)

lemma fold_later:
  "(\<And>i. \<not> P (f i)) \<Longrightarrow>
   fired (fold (\<lambda>i w. later (f i) (d i) w) xs w) = fired w
   \<and> pending_of P (timers (fold (\<lambda>i w. later (f i) (d i) w) xs w)) = pending_of P (timers w)"
  by (induction xs arbitrary: w) simp_all

lemma search_exec_fired: "fired (search_exec pg cb w) = fired w"
proof (cases cb)
  case PhaseResults
  then show ?thesis
    using fold_later [of is_phase SuggestionIn]
    by (simp add: showSuggestions_def showPhase_def hidePhase_def)
qed (simp_all add: showPhase_def hidePhase_def startTypingAnimation_def)

lemma search_exec_pending:
  "pending_of is_phase (timers (search_exec pg cb w)) = pending_of is_phase (timers w)"
proof (cases cb)
  case PhaseResults
  then show ?thesis
    using fold_later [of is_phase SuggestionIn]
    by (simp add: showSuggestions_def showPhase_def hidePhase_def)
qed (simp_all add: showPhase_def hidePhase_def startTypingAnimation_def)

lemma type_prod_simps:
  "fired (type_prod i w) = fired w"
  "pending_of is_phase_prod (timers (type_prod i w)) = pending_of is_phase_prod (timers w)"
  by (simp_all add: type_prod_def)

lemma setDisplay_simps [simp]:
  "fired (setDisplay pg p v w) = fired w" "timers (setDisplay pg p v w) = timers w"
  by (simp_all add: setDisplay_def split: option.splits)

lemma search_exec_prod_fired: "fired (search_exec_prod pg cb w) = fired w"
proof (cases cb)
  case (PhaseStep i)
  then show ?thesis
    using fold_later [of is_phase_prod SuggestionIn_prod]
    by (simp add: Let_def showSuggestions_prod_def typeText_def type_prod_simps)
qed (simp_all add: type_prod_simps)

lemma search_exec_prod_pending:
  "pending_of is_phase_prod (timers (search_exec_prod pg cb w)) =
     pending_of is_phase_prod (timers w)"
proof (cases cb)
  case (PhaseStep i)
  then show ?thesis
    using fold_later [of is_phase_prod SuggestionIn_prod]
    by (simp add: Let_def showSuggestions_prod_def typeText_def type_prod_simps)
qed (simp_all add: type_prod_simps)

lemma startAnimationSequence_timers:
  "timers (startAnimationSequence pg (timeline0 t0)) = absolute t0 phase_offsets"
  "fired (startAnimationSequence pg (timeline0 t0)) = []"
  by (simp_all add: startAnimationSequence_def showPhase_def timeline0_def absolute_def
      phase_offsets_def)

lemma startSequence_timers:
  "timers (startSequence (timeline0 t0)) = absolute t0 phase_offsets_prod"
  "fired (startSequence (timeline0 t0)) = []"
  by (simp_all add: startSequence_def phases_def timeline0_def absolute_def
      phase_offsets_prod_def upt_rec)

lemma absolute_sorted:
  "sorted_wrt (\<lambda>a b. fst a < fst b) (absolute t0 phase_offsets)"
  "sorted_wrt (\<lambda>a b. fst a < fst b) (absolute t0 phase_offsets_prod)"
  by (simp_all add: absolute_def phase_offsets_def phase_offsets_prod_def)

text \<open>
  Claim C8: the phase steps are all registered by the one call that triggers the
  sequence, each due at the trigger time plus its own offset; however late the timeouts
  fire, and whatever the callbacks register meanwhile, the phase steps fired so far
  followed by those still pending are that same list, so they fire in increasing offset
  order, each due at trigger time plus offset and never before it (both variants).
\<close>

theorem phases_fire_at_absolute_offsets:
  "timers (startAnimationSequence pg (timeline0 t0)) = absolute t0 phase_offsets
   \<and> fired_of is_phase
         (fired (run_timers (search_exec pg) lates (startAnimationSequence pg (timeline0 t0))))
       @ pending_of is_phase
         (timers (run_timers (search_exec pg) lates (startAnimationSequence pg (timeline0 t0))))
       = absolute t0 phase_offsets
   \<and> punctual (fired (run_timers (search_exec pg) lates
         (startAnimationSequence pg (timeline0 t0))))
   \<and> timers (startSequence (timeline0 t0)) = absolute t0 phase_offsets_prod
   \<and> fired_of is_phase_prod
         (fired (run_timers (search_exec_prod pg) lates (startSequence (timeline0 t0))))
       @ pending_of is_phase_prod
         (timers (run_timers (search_exec_prod pg) lates (startSequence (timeline0 t0))))
       = absolute t0 phase_offsets_prod
   \<and> punctual (fired (run_timers (search_exec_prod pg) lates (startSequence (timeline0 t0))))
   \<and> sorted_wrt (<) (map fst phase_offsets)
   \<and> sorted_wrt (<) (map fst phase_offsets_prod)"
proof -
  have i1: "fired_of is_phase (fired (startAnimationSequence pg (timeline0 t0)))
      @ pending_of is_phase (timers (startAnimationSequence pg (timeline0 t0)))
      = absolute t0 phase_offsets"
    by (simp add: startAnimationSequence_timers fired_of_def pending_of_def absolute_def
        phase_offsets_def)
  have i2: "fired_of is_phase_prod (fired (startSequence (timeline0 t0)))
      @ pending_of is_phase_prod (timers (startSequence (timeline0 t0)))
      = absolute t0 phase_offsets_prod"
    by (simp add: startSequence_timers fired_of_def pending_of_def absolute_def
        phase_offsets_prod_def)
  have p1: "punctual (fired (startAnimationSequence pg (timeline0 t0)))"
    and p2: "punctual (fired (startSequence (timeline0 t0)))"
    by (simp_all add: startAnimationSequence_timers startSequence_timers punctual_def)
  note a = run_keeps_schedule [of "search_exec pg" is_phase, OF search_exec_fired
      search_exec_pending absolute_sorted(1) i1]
  note b = run_keeps_schedule [of "search_exec_prod pg" is_phase_prod, OF search_exec_prod_fired
      search_exec_prod_pending absolute_sorted(2) i2]
  note c = run_punctual [of "search_exec pg", OF search_exec_fired p1]
  note d = run_punctual [of "search_exec_prod pg", OF search_exec_prod_fired p2]
  have s: "sorted_wrt (<) (map fst phase_offsets)"
    "sorted_wrt (<) (map fst phase_offsets_prod)"
    by (simp_all add: phase_offsets_def phase_offsets_prod_def)
  from startAnimationSequence_timers(1) a c startSequence_timers(1) b d s
  show ?thesis by blast
qed

text \<open>
  Claim C8 for a page with all four phases and two suggestions, triggered at 1000 ms,
  with the second timeout fired 5000 ms late.
\<close>

theorem phases_fire_at_absolute_offsets_witness:
  "fired_of is_phase
     (fired (run_timers (search_exec search_page0) lates0
        (startAnimationSequence search_page0 (timeline0 1000))))
     = [(4000, PhaseInput), (6500, PhaseProcessing), (8500, PhaseResults)]
   \<and> pending_of is_phase
     (timers (run_timers (search_exec search_page0) lates0
        (startAnimationSequence search_page0 (timeline0 1000)))) = []
   \<and> fired_of is_phase_prod
     (fired (run_timers (search_exec_prod search_page0) lates0 (startSequence (timeline0 1000))))
     = [(1500, PhaseStep 0), (3500, PhaseStep 1), (5500, PhaseStep 2), (7500, PhaseStep 3)]
   \<and> pending_of is_phase_prod
     (timers (run_timers (search_exec_prod search_page0) lates0 (startSequence (timeline0 1000))))
     = []"
proof -
  have a: "fired_of is_phase
     (fired (run_timers (search_exec search_page0) lates0
        (startAnimationSequence search_page0 (timeline0 1000))))
     = [(4000, PhaseInput), (6500, PhaseProcessing), (8500, PhaseResults)]"
    by code_simp
  have b: "fired_of is_phase_prod
     (fired (run_timers (search_exec_prod search_page0) lates0 (startSequence (timeline0 1000))))
     = [(1500, PhaseStep 0), (3500, PhaseStep 1), (5500, PhaseStep 2), (7500, PhaseStep 3)]"
    by code_simp
  have c: "absolute 1000 phase_offsets =
      [(4000, PhaseInput), (6500, PhaseProcessing), (8500, PhaseResults)]"
    and d: "absolute 1000 phase_offsets_prod =
      [(1500, PhaseStep 0), (3500, PhaseStep 1), (5500, PhaseStep 2), (7500, PhaseStep 3)]"
    by (simp_all add: absolute_def phase_offsets_def phase_offsets_prod_def)
  from phases_fire_at_absolute_offsets [of search_page0 1000 lates0]
  show ?thesis unfolding a b c d by simp
qed

end
